theory Spec2Isabelle
  imports Main "HOL-Library.Sublist"
begin

section \<open>Python strings\<close>

text \<open>
  The string methods that \<^verbatim>\<open>markup_modifier.py\<close> calls: \<^verbatim>\<open>str.strip\<close>,
  \<^verbatim>\<open>str.split\<close>, \<^verbatim>\<open>str.join\<close>, \<^verbatim>\<open>str.startswith\<close>, \<^verbatim>\<open>str.replace\<close> and
  \<^verbatim>\<open>str.lower\<close>. A string is a \<open>char list\<close>; the characters are the code points
  below 256.
\<close>

text \<open>\<^verbatim>\<open>str.isspace\<close> on one character (code points below 256).\<close>

definition isspace :: "char \<Rightarrow> bool" where
  "isspace c = (of_char c \<in> {9, 10, 11, 12, 13, 28, 29, 30, 31, 32, 133, 160 :: nat})"

text \<open>\<^verbatim>\<open>s.strip(chars)\<close>: leading and trailing characters of the set are removed.\<close>

definition strip_chars :: "(char \<Rightarrow> bool) \<Rightarrow> string \<Rightarrow> string" where
  "strip_chars P s = rev (dropWhile P (rev (dropWhile P s)))"

text \<open>\<^verbatim>\<open>s.rstrip(chars)\<close>: only trailing characters are removed.\<close>

definition rstrip_chars :: "(char \<Rightarrow> bool) \<Rightarrow> string \<Rightarrow> string" where
  "rstrip_chars P s = rev (dropWhile P (rev s))"

text \<open>\<^verbatim>\<open>s.strip()\<close> and \<^verbatim>\<open>s.strip(";")\<close>.\<close>

definition strip :: "string \<Rightarrow> string" where
  "strip s = strip_chars isspace s"

definition strip_semicolon :: "string \<Rightarrow> string" where
  "strip_semicolon s = strip_chars (\<lambda>c. c = CHR '';'') s"

text \<open>\<^verbatim>\<open>s.split(sep)\<close> for a separator of one character: \<open>n\<close> separators give
  \<open>n + 1\<close> pieces, and the empty string gives one empty piece.\<close>

fun split :: "char \<Rightarrow> string \<Rightarrow> string list" where
  "split sep [] = [[]]"
| "split sep (c # cs) =
     (if c = sep then [] # split sep cs
      else (case split sep cs of
              [] \<Rightarrow> [[c]]
            | w # ws \<Rightarrow> (c # w) # ws))"

text \<open>\<^verbatim>\<open>sep.join(pieces)\<close>.\<close>

fun join :: "string \<Rightarrow> string list \<Rightarrow> string" where
  "join sep [] = []"
| "join sep [w] = w"
| "join sep (w # v # ws) = w @ sep @ join sep (v # ws)"

text \<open>\<^verbatim>\<open>s.startswith(p)\<close> is \<^const>\<open>prefix\<close> \<open>p s\<close>.\<close>

definition startswith :: "string \<Rightarrow> string \<Rightarrow> bool" where
  "startswith s p = prefix p s"

text \<open>
  \<^verbatim>\<open>s.replace(old, new)\<close>: every occurrence of \<open>old\<close>, found from left to right
  without overlap, becomes \<open>new\<close>. For an empty \<open>old\<close> Python puts \<open>new\<close> before every
  character and at the end.
\<close>

function replace_nonempty :: "string \<Rightarrow> string \<Rightarrow> string \<Rightarrow> string" where
  "replace_nonempty [] old new = []"
| "replace_nonempty (c # cs) old new =
     (if old \<noteq> [] \<and> prefix old (c # cs)
      then new @ replace_nonempty (drop (length old) (c # cs)) old new
      else c # replace_nonempty cs old new)"
  by pat_completeness auto
termination
  by (relation "measure (\<lambda>(s, old, new). length s)") (auto simp: neq_Nil_conv)

definition replace :: "string \<Rightarrow> string \<Rightarrow> string \<Rightarrow> string" where
  "replace s old new =
     (if old = [] then new @ concat (map (\<lambda>c. c # new) s)
      else replace_nonempty s old new)"

text \<open>\<^verbatim>\<open>old in s\<close>: \<open>old\<close> occurs in \<open>s\<close> as a substring.\<close>

fun contains :: "string \<Rightarrow> string \<Rightarrow> bool" where
  "contains [] old = (old = [])"
| "contains (c # cs) old = (prefix old (c # cs) \<or> contains cs old)"

text \<open>\<^verbatim>\<open>str.lower\<close> on one character (code points below 256) and on a string.\<close>

definition lower_char :: "char \<Rightarrow> char" where
  "lower_char c =
     (let n = (of_char c :: nat)
      in if (65 \<le> n \<and> n \<le> 90) \<or> (192 \<le> n \<and> n \<le> 222 \<and> n \<noteq> 215)
         then char_of (n + 32) else c)"

definition lower :: "string \<Rightarrow> string" where
  "lower s = map lower_char s"

section \<open>The parsed markup\<close>

text \<open>
  The attributes of a tag are a Python \<^verbatim>\<open>dict\<close> from names to values, which keeps
  the order of insertion: an association list. Assigning to a key that is present
  keeps its place, assigning to a new key appends it, \<^verbatim>\<open>del\<close> removes the key.
  A value is a string, or, for the attributes that the parser treats as multi-valued
  (\<^verbatim>\<open>class\<close> on every tag, \<^verbatim>\<open>rel\<close> on \<^verbatim>\<open>a\<close> and \<^verbatim>\<open>link\<close>, \<^verbatim>\<open>headers\<close> on table
  cells and a few more), the list of its whitespace-separated parts. The operations
  themselves store strings only.
\<close>

datatype attr_value = Str string | Multi "string list"

type_synonym attrs = "(string \<times> attr_value) list"

definition has_attr :: "attrs \<Rightarrow> string \<Rightarrow> bool" where
  "has_attr d k = (map_of d k \<noteq> None)"

definition get_attr :: "attrs \<Rightarrow> string \<Rightarrow> attr_value option" where
  "get_attr d k = map_of d k"

definition del_attr :: "attrs \<Rightarrow> string \<Rightarrow> attrs" where
  "del_attr d k = filter (\<lambda>p. fst p \<noteq> k) d"

fun set_attr :: "attrs \<Rightarrow> string \<Rightarrow> attr_value \<Rightarrow> attrs" where
  "set_attr [] k v = [(k, v)]"
| "set_attr (p # ps) k v = (if fst p = k then (k, v) # ps else p # set_attr ps k v)"

text \<open>
  The tree that \<^verbatim>\<open>BeautifulSoup(wrapped_text, "html.parser")\<close> returns: a tag has a
  name, its attributes and its contents; the other nodes are strings. \<open>soup\<close> is the
  contents of the document object, so after construction it holds the synthetic
  \<^verbatim>\<open>root\<close> tag. The operations never change names, contents or strings.
\<close>

datatype node = Tag string attrs "node list" | NavigableString string

type_synonym soup = "node list"

text \<open>An element as the operations see it: the name and the attributes of a tag.\<close>

type_synonym element = "string \<times> attrs"

text \<open>\<^verbatim>\<open>soup.find_all(True)\<close>: every tag below the document, in document order.\<close>

fun find_all_True :: "node list \<Rightarrow> element list" where
  "find_all_True [] = []"
| "find_all_True (NavigableString t # ns) = find_all_True ns"
| "find_all_True (Tag n a cs # ns) = (n, a) # find_all_True cs @ find_all_True ns"

text \<open>
  \<^verbatim>\<open>for elem in self.soup.find_all(True): body(elem)\<close> where the body reads and
  writes nothing but \<^verbatim>\<open>elem.name\<close> and \<^verbatim>\<open>elem.attrs\<close>: every tag of the tree gets
  the attributes the body leaves.
\<close>

fun for_each_tag :: "(string \<Rightarrow> attrs \<Rightarrow> attrs) \<Rightarrow> node list \<Rightarrow> node list" where
  "for_each_tag body [] = []"
| "for_each_tag body (NavigableString t # ns) = NavigableString t # for_each_tag body ns"
| "for_each_tag body (Tag n a cs # ns) =
     Tag n (body n a) (for_each_tag body cs) # for_each_tag body ns"

text \<open>
  A loop over the result of a \<^verbatim>\<open>find_all\<close> holds the tags themselves. A tag is
  identified here by its position in document order: \<open>attrs_at\<close> and \<open>name_at\<close> read
  the attributes and the name of the tag at a position, \<open>modify_tag\<close> writes its
  attributes.
\<close>

definition attrs_at :: "soup \<Rightarrow> nat \<Rightarrow> attrs" where
  "attrs_at soup i = snd (find_all_True soup ! i)"

definition name_at :: "soup \<Rightarrow> nat \<Rightarrow> string" where
  "name_at soup i = fst (find_all_True soup ! i)"

fun modify_tag :: "nat \<Rightarrow> (attrs \<Rightarrow> attrs) \<Rightarrow> node list \<Rightarrow> node list" where
  "modify_tag i f [] = []"
| "modify_tag i f (NavigableString t # ns) = NavigableString t # modify_tag i f ns"
| "modify_tag 0 f (Tag n a cs # ns) = Tag n (f a) cs # ns"
| "modify_tag (Suc i) f (Tag n a cs # ns) =
     (if i < length (find_all_True cs) then Tag n a (modify_tag i f cs) # ns
      else Tag n a cs # modify_tag (i - length (find_all_True cs)) f ns)"

section \<open>Errors\<close>

text \<open>
  The exceptions that reach the module: its own \<^verbatim>\<open>MarkupModificationError\<close> with a
  message and optional details, the \<^verbatim>\<open>IndexError\<close> and \<^verbatim>\<open>KeyError\<close> of a rule
  set that lacks the first entry or its key, and the \<^verbatim>\<open>AttributeError\<close> of a string
  method called on a list value. \<open>str_of\<close> is \<^verbatim>\<open>str(e)\<close>.
\<close>

datatype exn =
    MarkupModificationError string "string option"
  | IndexError
  | KeyError string
  | AttributeError string

fun str_of :: "exn \<Rightarrow> string" where
  "str_of (MarkupModificationError message None) = message"
| "str_of (MarkupModificationError message (Some details)) =
     (if details = [] then message else message @ '': '' @ details)"
| "str_of IndexError = ''list index out of range''"
| "str_of (KeyError k) = [CHR 0x27] @ k @ [CHR 0x27]"
| "str_of (AttributeError message) = message"

text \<open>
  The message of the \<^verbatim>\<open>AttributeError\<close> for a method that a list does not have:
  \<^verbatim>\<open>'list' object has no attribute 'replace'\<close>. The interpreter puts the class of
  the value first: \<^verbatim>\<open>list\<close> for the plain lists of the parser; a version of the parser
  library that stores a subclass of \<^verbatim>\<open>list\<close> gives that name instead, with the same
  exception.
\<close>

definition list_has_no_attribute :: "string \<Rightarrow> string" where
  "list_has_no_attribute method =
     [CHR 0x27] @ ''list'' @ [CHR 0x27] @ '' object has no attribute ''
     @ [CHR 0x27] @ method @ [CHR 0x27]"

text \<open>A call mutates the tree in place and returns or raises: the outcome and the
  tree it leaves.\<close>

type_synonym outcome = "exn + unit"

text \<open>\<^verbatim>\<open>except Exception as e: raise MarkupModificationError(message, details=str(e))\<close>.\<close>

definition rewrap :: "string \<Rightarrow> outcome \<times> soup \<Rightarrow> outcome \<times> soup" where
  "rewrap message r =
     (case r of
        (Inl e, soup) \<Rightarrow> (Inl (MarkupModificationError message (Some (str_of e))), soup)
      | (Inr u, soup) \<Rightarrow> (Inr u, soup))"

text \<open>
  \<^verbatim>\<open>for elem in elements: body(elem)\<close> where the body can raise: the tags at the
  given positions are visited in order; a tag gets the attributes the body leaves, and
  the loop ends at the first tag where the body raises, with the tags before it changed
  and the others as they were.
\<close>

fun for_each_position :: "(attrs \<Rightarrow> exn + attrs) \<Rightarrow> nat list \<Rightarrow> soup \<Rightarrow> outcome \<times> soup" where
  "for_each_position body [] soup = (Inr (), soup)"
| "for_each_position body (i # rest) soup =
     (case body (attrs_at soup i) of
        Inl e \<Rightarrow> (Inl e, soup)
      | Inr d \<Rightarrow> for_each_position body rest (modify_tag i (\<lambda>old. d) soup))"

section \<open>Mutation operations\<close>

subsection \<open>\<^verbatim>\<open>remove_attributes\<close>\<close>

text \<open>The inner loop, \<^verbatim>\<open>for attr in attributes: if elem.has_attr(attr): del elem[attr]\<close>.\<close>

fun remove_each :: "string list \<Rightarrow> attrs \<Rightarrow> attrs" where
  "remove_each [] d = d"
| "remove_each (attr # rest) d =
     remove_each rest (if has_attr d attr then del_attr d attr else d)"

text \<open>The argument is \<open>None\<close> for Python's \<^verbatim>\<open>None\<close>; \<^verbatim>\<open>not attributes\<close> holds for
  \<^verbatim>\<open>None\<close> and for the empty list.\<close>

definition remove_attributes :: "string list option \<Rightarrow> soup \<Rightarrow> outcome \<times> soup" where
  "remove_attributes attributes soup =
     (if attributes = None \<or> attributes = Some []
      then (Inl (MarkupModificationError
                   ''List of attributes is empty or None, removal not possible.''
                   (Some ''Passed an empty list of attributes'')), soup)
      else (Inr (), for_each_tag (\<lambda>name d. remove_each (the attributes) d) soup))"

subsection \<open>\<^verbatim>\<open>remove_style_properties\<close>\<close>

text \<open>The new value of one \<^verbatim>\<open>style\<close> attribute: the generator expression that is
  joined and stripped.\<close>

definition updated_style :: "string list \<Rightarrow> string \<Rightarrow> string" where
  "updated_style properties original_style =
     strip_semicolon
       (join '';''
          (map strip
             (filter (\<lambda>s. \<not> list_ex (\<lambda>prop. startswith (strip s) prop) properties)
                (split CHR '';'' original_style))))"

text \<open>The body of the loop. A list has no \<^verbatim>\<open>split\<close>: on a \<^verbatim>\<open>style\<close> that holds a
  list the body raises.\<close>

definition remove_style_body :: "string list \<Rightarrow> attrs \<Rightarrow> exn + attrs" where
  "remove_style_body properties d =
     (case get_attr d ''style'' of
        None \<Rightarrow> Inr d
      | Some (Multi parts) \<Rightarrow>
          Inl (AttributeError (list_has_no_attribute ''split''))
      | Some (Str original_style) \<Rightarrow>
          (let updated = updated_style properties original_style
           in if updated = [] then Inr (del_attr d ''style'')
              else Inr (set_attr d ''style'' (Str updated))))"

definition remove_style_properties :: "string list option \<Rightarrow> soup \<Rightarrow> outcome \<times> soup" where
  "remove_style_properties properties soup =
     (if properties = None \<or> properties = Some []
      then (Inl (MarkupModificationError
                   ''List of properties is empty or None, removal not possible.''
                   (Some ''Passed an empty list of properties'')), soup)
      else rewrap ''Error during the removal of style properties''
             (for_each_position (remove_style_body (the properties))
                [0 ..< length (find_all_True soup)] soup))"

subsection \<open>\<^verbatim>\<open>replace_attribute_value\<close>\<close>

text \<open>
  \<^verbatim>\<open>find_all(attrs={attribute: True})\<close> selects the tags that have the attribute.
  For each, an empty current value, string or list, is skipped
  (\<^verbatim>\<open>if current_value\<close>); a list that is not empty has no \<^verbatim>\<open>replace\<close>, so the body
  raises; on a string the attribute is assigned only when the replacement changed the
  value. What the body raises ends the loop and is wrapped.
\<close>

definition find_all_attrs :: "string \<Rightarrow> soup \<Rightarrow> nat list" where
  "find_all_attrs attribute soup =
     filter (\<lambda>i. has_attr (attrs_at soup i) attribute) [0 ..< length (find_all_True soup)]"

definition replace_body :: "string \<Rightarrow> string \<Rightarrow> string \<Rightarrow> attrs \<Rightarrow> exn + attrs" where
  "replace_body attribute old_value new_value d =
     (case get_attr d attribute of
        None \<Rightarrow> Inr d
      | Some (Multi parts) \<Rightarrow>
          (if parts = [] then Inr d
           else Inl (AttributeError (list_has_no_attribute ''replace'')))
      | Some (Str current_value) \<Rightarrow>
          (if current_value = [] then Inr d
           else (let updated_value =
                       replace current_value (strip_semicolon old_value)
                         (strip_semicolon new_value)
                 in if updated_value \<noteq> current_value
                    then Inr (set_attr d attribute (Str updated_value)) else Inr d)))"

definition replace_attribute_value ::
  "string \<Rightarrow> string \<Rightarrow> string \<Rightarrow> soup \<Rightarrow> outcome \<times> soup" where
  "replace_attribute_value attribute old_value new_value soup =
     rewrap ''Error during attribute value replacement''
       (for_each_position (replace_body attribute old_value new_value)
          (find_all_attrs attribute soup) soup)"

subsection \<open>\<^verbatim>\<open>add_attribute\<close>\<close>

text \<open>\<^verbatim>\<open>find_all(tag.lower())\<close> selects the tags whose name is the lower-cased
  argument.\<close>

definition add_body :: "string \<Rightarrow> string \<Rightarrow> string \<Rightarrow> string \<Rightarrow> attrs \<Rightarrow> attrs" where
  "add_body tag attribute val name d =
     (if name = lower tag then set_attr d attribute (Str val) else d)"

definition add_attribute :: "string \<Rightarrow> string \<Rightarrow> string \<Rightarrow> soup \<Rightarrow> outcome \<times> soup" where
  "add_attribute tag attribute val soup =
     (Inr (), for_each_tag (add_body tag attribute val) soup)"

section \<open>Rule sets\<close>

text \<open>
  A rule set is a dictionary with up to three keys, each holding a list of entries.
  An entry of \<^verbatim>\<open>remove_attributes\<close> is a dictionary that may lack the key
  \<^verbatim>\<open>attributes\<close>, and whose value there may be \<^verbatim>\<open>None\<close>; the entries of the other
  two categories carry their three strings.
\<close>

datatype remove_rule = NoAttributesKey | Attributes "string list option"

datatype replace_rule = ReplaceRule string string string

datatype add_rule = AddRule string string string

record rules =
  remove_attributes_key :: "remove_rule list option"
  replace_attributes_key :: "replace_rule list option"
  add_attributes_key :: "add_rule list option"

text \<open>\<^verbatim>\<open>rules["remove_attributes"][0]["attributes"]\<close>.\<close>

fun first_attributes :: "remove_rule list \<Rightarrow> exn + string list option" where
  "first_attributes [] = Inl IndexError"
| "first_attributes (NoAttributesKey # rest) = Inl (KeyError ''attributes'')"
| "first_attributes (Attributes a # rest) = Inr a"

section \<open>\<^verbatim>\<open>apply_rules_async\<close>\<close>

text \<open>Sequencing of statements: an exception ends the block with the tree as it is.\<close>

definition and_then ::
  "outcome \<times> soup \<Rightarrow> (soup \<Rightarrow> outcome \<times> soup) \<Rightarrow> outcome \<times> soup" where
  "and_then r k = (case r of (Inl e, soup) \<Rightarrow> (Inl e, soup) | (Inr u, soup) \<Rightarrow> k soup)"

text \<open>The three \<^verbatim>\<open>if ... in rules\<close> blocks; each \<^verbatim>\<open>await loop.run_in_executor\<close>
  returns when the call has finished, or raises what the call raised.\<close>

definition await_remove :: "rules \<Rightarrow> soup \<Rightarrow> outcome \<times> soup" where
  "await_remove rules soup =
     (case remove_attributes_key rules of
        None \<Rightarrow> (Inr (), soup)
      | Some entries \<Rightarrow>
          (case first_attributes entries of
             Inl e \<Rightarrow> (Inl e, soup)
           | Inr attributes \<Rightarrow> remove_attributes attributes soup))"

fun await_replace_each :: "replace_rule list \<Rightarrow> soup \<Rightarrow> outcome \<times> soup" where
  "await_replace_each [] soup = (Inr (), soup)"
| "await_replace_each (ReplaceRule attribute old_value new_value # rest) soup =
     and_then (replace_attribute_value attribute old_value new_value soup)
       (await_replace_each rest)"

definition await_replace :: "rules \<Rightarrow> soup \<Rightarrow> outcome \<times> soup" where
  "await_replace rules soup =
     (case replace_attributes_key rules of
        None \<Rightarrow> (Inr (), soup)
      | Some entries \<Rightarrow> await_replace_each entries soup)"

fun await_add_each :: "add_rule list \<Rightarrow> soup \<Rightarrow> outcome \<times> soup" where
  "await_add_each [] soup = (Inr (), soup)"
| "await_add_each (AddRule tag attribute val # rest) soup =
     and_then (add_attribute tag attribute val soup) (await_add_each rest)"

definition await_add :: "rules \<Rightarrow> soup \<Rightarrow> outcome \<times> soup" where
  "await_add rules soup =
     (case add_attributes_key rules of
        None \<Rightarrow> (Inr (), soup)
      | Some entries \<Rightarrow> await_add_each entries soup)"

definition apply_rules_async :: "rules \<Rightarrow> soup \<Rightarrow> outcome \<times> soup" where
  "apply_rules_async rules soup =
     rewrap ''Error during asynchronous rule application''
       (and_then (and_then (await_remove rules soup) (await_replace rules))
          (await_add rules))"

section \<open>\<^verbatim>\<open>apply_rules\<close>\<close>

subsection \<open>The calls submitted to the pool\<close>

datatype operation =
    RemoveAttributes "string list option"
  | ReplaceAttributeValue string string string
  | AddAttribute string string string

text \<open>
  The \<^verbatim>\<open>executor.submit\<close> calls in the order of the source. Evaluating the
  argument of the first one can raise; nothing has been submitted then.
\<close>

definition submit_remove :: "rules \<Rightarrow> exn + operation list" where
  "submit_remove rules =
     (case remove_attributes_key rules of
        None \<Rightarrow> Inr []
      | Some entries \<Rightarrow>
          (case first_attributes entries of
             Inl e \<Rightarrow> Inl e
           | Inr attributes \<Rightarrow> Inr [RemoveAttributes attributes]))"

definition submit_replace :: "rules \<Rightarrow> operation list" where
  "submit_replace rules =
     (case replace_attributes_key rules of
        None \<Rightarrow> []
      | Some entries \<Rightarrow>
          map (\<lambda>rule. case rule of ReplaceRule attribute old_value new_value \<Rightarrow>
                 ReplaceAttributeValue attribute old_value new_value) entries)"

definition submit_add :: "rules \<Rightarrow> operation list" where
  "submit_add rules =
     (case add_attributes_key rules of
        None \<Rightarrow> []
      | Some entries \<Rightarrow>
          map (\<lambda>rule. case rule of AddRule tag attribute val \<Rightarrow>
                 AddAttribute tag attribute val) entries)"

definition submit :: "rules \<Rightarrow> exn + operation list" where
  "submit rules =
     (case submit_remove rules of
        Inl e \<Rightarrow> Inl e
      | Inr futures \<Rightarrow> Inr (futures @ submit_replace rules @ submit_add rules))"

subsection \<open>One call, step by step\<close>

text \<open>
  A thread can be interrupted between any two accesses to the tree, so a call in
  progress is a state machine whose steps each make at most one access to one tag.
  The states are the program points of the three methods:
  \<^item> \<open>Pending\<close>: submitted, not yet started;
  \<^item> \<open>RemoveLoop\<close>: in the nested loops of \<^verbatim>\<open>remove_attributes\<close>, with the
    iterations (tag, attribute) still to run;
  \<^item> \<open>ReplaceFind\<close>: in \<^verbatim>\<open>find_all(attrs={attribute: True})\<close>, with the tags still
    to test and the tags selected so far;
  \<^item> \<open>ReplaceLoop\<close>: at the head of the loop over the selected tags, where the
    current value is read (and a list that is not empty makes the call raise);
  \<^item> \<open>ReplaceStore\<close>: before \<^verbatim>\<open>elem[attribute] = updated_value\<close>;
  \<^item> \<open>ReplaceLog\<close>: before the \<^verbatim>\<open>logging.debug\<close> whose f-string reads
    \<^verbatim>\<open>elem[attribute]\<close> again;
  \<^item> \<open>AddLoop\<close>: in the loop of \<^verbatim>\<open>add_attribute\<close>, with the tags still to write;
  \<^item> \<open>Finished\<close>: returned or raised.
  In \<^verbatim>\<open>remove_attributes\<close> the test \<^verbatim>\<open>elem.has_attr(attr)\<close> and the \<^verbatim>\<open>del\<close>
  are one step: no other call of a pool deletes an attribute, so a step of another
  call between the two would not change what the \<^verbatim>\<open>del\<close> does.
\<close>

datatype task =
    Pending operation
  | RemoveLoop "(nat \<times> string) list"
  | ReplaceFind string string string "nat list" "nat list"
  | ReplaceLoop string string string "nat list"
  | ReplaceStore string string string nat string "nat list"
  | ReplaceLog string string string nat "nat list"
  | AddLoop string string "nat list"
  | Finished outcome

fun step :: "task \<Rightarrow> soup \<Rightarrow> task \<times> soup" where
  "step (Pending (RemoveAttributes attributes)) soup =
     (if attributes = None \<or> attributes = Some []
      then (Finished (Inl (MarkupModificationError
                ''List of attributes is empty or None, removal not possible.''
                (Some ''Passed an empty list of attributes''))), soup)
      else (RemoveLoop (List.product [0 ..< length (find_all_True soup)] (the attributes)),
            soup))"
| "step (RemoveLoop []) soup = (Finished (Inr ()), soup)"
| "step (RemoveLoop ((i, attr) # work)) soup =
     (RemoveLoop work,
      if has_attr (attrs_at soup i) attr then modify_tag i (\<lambda>d. del_attr d attr) soup
      else soup)"
| "step (Pending (ReplaceAttributeValue attribute old_value new_value)) soup =
     (ReplaceFind attribute old_value new_value [0 ..< length (find_all_True soup)] [], soup)"
| "step (ReplaceFind attribute old_value new_value [] found) soup =
     (ReplaceLoop attribute old_value new_value found, soup)"
| "step (ReplaceFind attribute old_value new_value (i # scan) found) soup =
     (ReplaceFind attribute old_value new_value scan
        (if has_attr (attrs_at soup i) attribute then found @ [i] else found), soup)"
| "step (ReplaceLoop attribute old_value new_value []) soup = (Finished (Inr ()), soup)"
| "step (ReplaceLoop attribute old_value new_value (i # todo)) soup =
     (case get_attr (attrs_at soup i) attribute of
        None \<Rightarrow> (ReplaceLoop attribute old_value new_value todo, soup)
      | Some (Multi parts) \<Rightarrow>
          (if parts = [] then (ReplaceLoop attribute old_value new_value todo, soup)
           else (Finished (Inl (MarkupModificationError
                   ''Error during attribute value replacement''
                   (Some (list_has_no_attribute ''replace'')))), soup))
      | Some (Str current_value) \<Rightarrow>
          (if current_value = [] then (ReplaceLoop attribute old_value new_value todo, soup)
           else (let updated_value =
                       replace current_value (strip_semicolon old_value)
                         (strip_semicolon new_value)
                 in if updated_value \<noteq> current_value
                    then (ReplaceStore attribute old_value new_value i updated_value todo,
                          soup)
                    else (ReplaceLoop attribute old_value new_value todo, soup))))"
| "step (ReplaceStore attribute old_value new_value i updated_value todo) soup =
     (ReplaceLog attribute old_value new_value i todo,
      modify_tag i (\<lambda>d. set_attr d attribute (Str updated_value)) soup)"
| "step (ReplaceLog attribute old_value new_value i todo) soup =
     (if has_attr (attrs_at soup i) attribute
      then (ReplaceLoop attribute old_value new_value todo, soup)
      else (Finished (Inl (MarkupModificationError
                ''Error during attribute value replacement''
                (Some (str_of (KeyError attribute))))), soup))"
| "step (Pending (AddAttribute tag attribute val)) soup =
     (AddLoop attribute val
        (filter (\<lambda>i. name_at soup i = lower tag) [0 ..< length (find_all_True soup)]),
      soup)"
| "step (AddLoop attribute val []) soup = (Finished (Inr ()), soup)"
| "step (AddLoop attribute val (i # todo)) soup =
     (AddLoop attribute val todo, modify_tag i (\<lambda>d. set_attr d attribute (Str val)) soup)"
| "step (Finished r) soup = (Finished r, soup)"

fun is_finished :: "task \<Rightarrow> bool" where
  "is_finished (Finished r) = True"
| "is_finished t = False"

fun is_pending :: "task \<Rightarrow> bool" where
  "is_pending (Pending operation) = True"
| "is_pending t = False"

text \<open>A bound on the steps that a started call still takes.\<close>

fun steps_left :: "task \<Rightarrow> nat" where
  "steps_left (Pending operation) = 0"
| "steps_left (RemoveLoop work) = Suc (length work)"
| "steps_left (ReplaceFind attribute old_value new_value scan found) =
     4 * length scan + 3 * length found + 2"
| "steps_left (ReplaceLoop attribute old_value new_value todo) = 3 * length todo + 1"
| "steps_left (ReplaceStore attribute old_value new_value i updated_value todo) =
     3 * length todo + 3"
| "steps_left (ReplaceLog attribute old_value new_value i todo) = 3 * length todo + 2"
| "steps_left (AddLoop attribute val todo) = Suc (length todo)"
| "steps_left (Finished r) = 0"

lemma step_decreases:
  "\<not> is_finished t \<Longrightarrow>
   ((fst (step t soup), snd (step t soup)), (t, soup))
     \<in> measures [\<lambda>(t, soup). if is_pending t then 1 else 0, \<lambda>(t, soup). steps_left t]"
  by (induction t soup rule: step.induct)
     (auto split: option.splits attr_value.splits simp: Let_def)

text \<open>A call that has the processor to itself until it returns or raises.\<close>

function run_to_end :: "task \<Rightarrow> soup \<Rightarrow> outcome \<times> soup" where
  "run_to_end t soup =
     (case t of
        Finished r \<Rightarrow> (r, soup)
      | _ \<Rightarrow> run_to_end (fst (step t soup)) (snd (step t soup)))"
  by pat_completeness auto
termination
  apply (relation "measures [\<lambda>(t, soup). if is_pending t then 1 else 0,
                             \<lambda>(t, soup). steps_left t]")
  apply simp
  apply (rule step_decreases, simp)+
  done

subsection \<open>The pool\<close>

text \<open>
  Which thread runs next is the scheduler's choice: \<open>schedule\<close> lists, step by step,
  the position of the call that makes the next step (a choice of a finished call or
  of no call is skipped). \<open>completed\<close> collects the outcomes in the order in which
  the calls finish.
\<close>

fun run_schedule ::
  "nat list \<Rightarrow> task list \<Rightarrow> outcome list \<Rightarrow> soup \<Rightarrow> task list \<times> outcome list \<times> soup" where
  "run_schedule [] tasks completed soup = (tasks, completed, soup)"
| "run_schedule (k # schedule) tasks completed soup =
     (if k < length tasks \<and> \<not> is_finished (tasks ! k)
      then (case step (tasks ! k) soup of
              (t, soup') \<Rightarrow>
                run_schedule schedule (tasks[k := t])
                  (case t of Finished r \<Rightarrow> completed @ [r] | _ \<Rightarrow> completed) soup')
      else run_schedule schedule tasks completed soup)"

text \<open>
  Leaving the \<^verbatim>\<open>with ThreadPoolExecutor()\<close> block waits for every call: the calls
  that the schedule left unfinished run to their end, in the order of submission.
\<close>

fun join_all :: "task list \<Rightarrow> outcome list \<Rightarrow> soup \<Rightarrow> outcome list \<times> soup" where
  "join_all [] completed soup = (completed, soup)"
| "join_all (t # tasks) completed soup =
     (if is_finished t then join_all tasks completed soup
      else (case run_to_end t soup of
              (r, soup') \<Rightarrow> join_all tasks (completed @ [r]) soup'))"

definition thread_pool :: "nat list \<Rightarrow> operation list \<Rightarrow> soup \<Rightarrow> outcome list \<times> soup" where
  "thread_pool schedule futures soup =
     (case run_schedule schedule (map Pending futures) [] soup of
        (tasks, completed, soup') \<Rightarrow> join_all tasks completed soup')"

text \<open>\<^verbatim>\<open>for future in as_completed(futures): future.result()\<close> raises the exception
  of the first call that finished with one.\<close>

fun first_exception :: "outcome list \<Rightarrow> exn option" where
  "first_exception [] = None"
| "first_exception (Inl e # completed) = Some e"
| "first_exception (Inr u # completed) = first_exception completed"

definition apply_rules :: "rules \<Rightarrow> nat list \<Rightarrow> soup \<Rightarrow> outcome \<times> soup" where
  "apply_rules rules schedule soup =
     (case submit rules of
        Inl e \<Rightarrow>
          (Inl (MarkupModificationError ''Error during rule application''
                  (Some (str_of e))), soup)
      | Inr futures \<Rightarrow>
          (case thread_pool schedule futures soup of
             (completed, soup') \<Rightarrow>
               (case first_exception completed of
                  None \<Rightarrow> (Inr (), soup')
                | Some e \<Rightarrow>
                    (Inl (MarkupModificationError ''Error during rule application''
                            (Some (str_of e))), soup'))))"

section \<open>The operations as the specification words them\<close>

text \<open>
  The specification describes the new style value as: split on \<^verbatim>\<open>;\<close>, drop every
  declaration whose trimmed text starts with one of the property names, rejoin the
  kept declarations with \<^verbatim>\<open>;\<close>, trim trailing \<^verbatim>\<open>;\<close>. \<open>described_style\<close> is that
  description. \<open>kept_style\<close> differs in the last step only: it strips \<^verbatim>\<open>;\<close> at both
  ends.
\<close>

definition kept_declarations :: "string list \<Rightarrow> string \<Rightarrow> string list" where
  "kept_declarations properties style =
     map strip
       (filter (\<lambda>declaration. \<not> (\<exists>prop \<in> set properties. prefix prop (strip declaration)))
          (split CHR '';'' style))"

definition described_style :: "string list \<Rightarrow> string \<Rightarrow> string" where
  "described_style properties style =
     rstrip_chars (\<lambda>c. c = CHR '';'') (join '';'' (kept_declarations properties style))"

definition kept_style :: "string list \<Rightarrow> string \<Rightarrow> string" where
  "kept_style properties style =
     strip_chars (\<lambda>c. c = CHR '';'') (join '';'' (kept_declarations properties style))"

text \<open>A value trimmed of trailing \<^verbatim>\<open>;\<close>, as the specification describes the
  arguments of the replacement.\<close>

definition rstrip_semicolon :: "string \<Rightarrow> string" where
  "rstrip_semicolon s = rstrip_chars (\<lambda>c. c = CHR '';'') s"

section \<open>Sequential application, as the specification words it\<close>

text \<open>
  The specification describes \<^verbatim>\<open>apply_rules_async\<close> as applying the derived
  operations one at a time in category order: the remove operation of the first
  entry, then one replace operation per entry in sequence order, then one add
  operation per entry in sequence order. \<open>derived_operations\<close> is that list,
  \<open>apply_in_order\<close> applies a list of operations one after the other and stops at the
  first that raises, and \<open>sequential_application\<close> wraps what is raised as
  \<^verbatim>\<open>apply_rules_async\<close> does.
\<close>

fun apply_operation :: "operation \<Rightarrow> soup \<Rightarrow> outcome \<times> soup" where
  "apply_operation (RemoveAttributes attributes) soup = remove_attributes attributes soup"
| "apply_operation (ReplaceAttributeValue attribute old_value new_value) soup =
     replace_attribute_value attribute old_value new_value soup"
| "apply_operation (AddAttribute tag attribute val) soup = add_attribute tag attribute val soup"

fun apply_in_order :: "operation list \<Rightarrow> soup \<Rightarrow> outcome \<times> soup" where
  "apply_in_order [] soup = (Inr (), soup)"
| "apply_in_order (operation # rest) soup =
     (case apply_operation operation soup of
        (Inl e, soup') \<Rightarrow> (Inl e, soup')
      | (Inr u, soup') \<Rightarrow> apply_in_order rest soup')"

definition derived_operations :: "rules \<Rightarrow> exn + operation list" where
  "derived_operations rules =
     (let replaces = (case replace_attributes_key rules of None \<Rightarrow> [] | Some entries \<Rightarrow> entries);
          adds = (case add_attributes_key rules of None \<Rightarrow> [] | Some entries \<Rightarrow> entries);
          later = map (\<lambda>rule. case rule of ReplaceRule attribute old_value new_value \<Rightarrow>
                         ReplaceAttributeValue attribute old_value new_value) replaces
                  @ map (\<lambda>rule. case rule of AddRule tag attribute val \<Rightarrow>
                           AddAttribute tag attribute val) adds
      in case remove_attributes_key rules of
           None \<Rightarrow> Inr later
         | Some [] \<Rightarrow> Inl IndexError
         | Some (NoAttributesKey # ignored) \<Rightarrow> Inl (KeyError ''attributes'')
         | Some (Attributes attributes # ignored) \<Rightarrow> Inr (RemoveAttributes attributes # later))"

definition sequential_application :: "rules \<Rightarrow> soup \<Rightarrow> outcome \<times> soup" where
  "sequential_application rules soup =
     (case derived_operations rules of
        Inl e \<Rightarrow>
          (Inl (MarkupModificationError ''Error during asynchronous rule application''
                  (Some (str_of e))), soup)
      | Inr operations \<Rightarrow>
          (case apply_in_order operations soup of
             (Inl e, soup') \<Rightarrow>
               (Inl (MarkupModificationError ''Error during asynchronous rule application''
                       (Some (str_of e))), soup')
           | (Inr u, soup') \<Rightarrow> (Inr u, soup')))"

section \<open>Auxiliary notions\<close>

text \<open>The tree without its attributes: what no operation changes.\<close>

definition skeleton :: "soup \<Rightarrow> soup" where
  "skeleton soup = for_each_tag (\<lambda>name d. []) soup"

text \<open>What a loop body leaves of the attributes of a tag: its result, or the attributes
  as they were when it raises.\<close>

definition result_or_same :: "(attrs \<Rightarrow> exn + attrs) \<Rightarrow> attrs \<Rightarrow> attrs" where
  "result_or_same body d = (case body d of Inl e \<Rightarrow> d | Inr d' \<Rightarrow> d')"

text \<open>One iteration of the inner loop of \<^verbatim>\<open>remove_attributes\<close> on the tree, and the
  same on the list of elements in document order.\<close>

definition remove_step :: "nat \<times> string \<Rightarrow> soup \<Rightarrow> soup" where
  "remove_step w soup =
     (if has_attr (attrs_at soup (fst w)) (snd w)
      then modify_tag (fst w) (\<lambda>d. del_attr d (snd w)) soup else soup)"

definition remove_in_view :: "nat \<times> string \<Rightarrow> element list \<Rightarrow> element list" where
  "remove_in_view w v = v[fst w := (fst (v ! fst w), del_attr (snd (v ! fst w)) (snd w))]"

section \<open>Properties\<close>

lemma del_attr_absent: "\<not> has_attr d k \<Longrightarrow> del_attr d k = d"
  by (induction d) (auto simp: has_attr_def del_attr_def)

lemma has_attr_del_attr: "has_attr (del_attr d k) j = (j \<noteq> k \<and> has_attr d j)"
  by (induction d) (auto simp: has_attr_def del_attr_def)

lemma remove_each_filter: "remove_each as d = filter (\<lambda>p. fst p \<notin> set as) d"
proof (induction as arbitrary: d)
  case Nil
  then show ?case by simp
next
  case (Cons a as)
  have "(if has_attr d a then del_attr d a else d) = del_attr d a"
    by (simp add: del_attr_absent)
  then show ?case
    by (simp add: Cons.IH del_attr_def conj_commute)
qed

lemma remove_each_twice: "remove_each as (remove_each as d) = remove_each as d"
  by (simp add: remove_each_filter)

lemma for_each_tag_twice:
  "for_each_tag f (for_each_tag g soup) = for_each_tag (\<lambda>n d. f n (g n d)) soup"
  by (induction g soup rule: for_each_tag.induct) simp_all

lemma find_all_for_each_tag:
  "find_all_True (for_each_tag f soup) = map (\<lambda>(n, d). (n, f n d)) (find_all_True soup)"
  by (induction f soup rule: for_each_tag.induct) simp_all

lemma get_attr_set_attr:
  "get_attr (set_attr d k v) j = (if j = k then Some v else get_attr d j)"
  by (induction d) (auto simp: get_attr_def)

lemma get_attr_del_attr:
  "get_attr (del_attr d k) j = (if j = k then None else get_attr d j)"
  by (induction d) (auto simp: get_attr_def del_attr_def)

lemma set_attr_twice: "set_attr (set_attr d k v) k w = set_attr d k w"
  by (induction d) auto

lemma length_find_all_for_each_tag:
  "length (find_all_True (for_each_tag f soup)) = length (find_all_True soup)"
  by (simp add: find_all_for_each_tag)

lemma attrs_at_for_each_tag:
  "i < length (find_all_True soup) \<Longrightarrow>
   attrs_at (for_each_tag f soup) i = f (name_at soup i) (attrs_at soup i)"
  by (simp add: attrs_at_def name_at_def find_all_for_each_tag split_beta)

lemma name_at_for_each_tag:
  "i < length (find_all_True soup) \<Longrightarrow> name_at (for_each_tag f soup) i = name_at soup i"
  by (simp add: name_at_def find_all_for_each_tag split_beta)

lemma has_attr_set_attr: "has_attr (set_attr d k v) k"
  by (simp add: has_attr_def get_attr_set_attr [unfolded get_attr_def])

lemma get_attr_remove_each:
  "get_attr (remove_each as d) k = (if k \<in> set as then None else get_attr d k)"
  by (induction d) (auto simp: remove_each_filter get_attr_def)

lemma has_attr_remove_each: "has_attr (remove_each as d) k = (k \<notin> set as \<and> has_attr d k)"
  using get_attr_remove_each [of as d k] by (auto simp: has_attr_def get_attr_def)

subsection \<open>The tree as the list of its tags\<close>

lemma length_find_all_modify_tag:
  "length (find_all_True (modify_tag i f soup)) = length (find_all_True soup)"
  by (induction i f soup rule: modify_tag.induct) simp_all

lemma find_all_modify_tag:
  "i < length (find_all_True soup) \<Longrightarrow>
   find_all_True (modify_tag i f soup)
   = (find_all_True soup)[i := (fst (find_all_True soup ! i), f (snd (find_all_True soup ! i)))]"
  by (induction i f soup rule: modify_tag.induct)
     (simp_all add: list_update_append nth_append length_find_all_modify_tag)

lemma skeleton_for_each_tag: "skeleton (for_each_tag f soup) = skeleton soup"
  by (simp add: skeleton_def for_each_tag_twice)

lemma skeleton_modify_tag: "skeleton (modify_tag i f soup) = skeleton soup"
  unfolding skeleton_def
  by (induction i f soup rule: modify_tag.induct) simp_all

lemma length_find_all_skeleton:
  "length (find_all_True (skeleton soup)) = length (find_all_True soup)"
  by (simp add: skeleton_def length_find_all_for_each_tag)

lemma soup_eqI:
  "skeleton s = skeleton s' \<Longrightarrow> find_all_True s = find_all_True s' \<Longrightarrow> s = s'"
proof (induction s arbitrary: s' rule: find_all_True.induct)
  case 1
  then show ?case by (cases s' rule: find_all_True.cases) (auto simp: skeleton_def)
next
  case (2 t ns)
  then show ?case
    by (cases s' rule: find_all_True.cases) (auto simp: skeleton_def)
next
  case (3 n a cs ns)
  show ?case
  proof (cases s' rule: find_all_True.cases)
    case 1
    with 3 show ?thesis by (simp add: skeleton_def)
  next
    case (2 t' ns')
    with 3 show ?thesis by (simp add: skeleton_def)
  next
    case (3 n' a' cs' ns')
    from "3.prems"(1) 3 have sk: "skeleton cs = skeleton cs'" "skeleton ns = skeleton ns'" "n = n'"
      by (simp_all add: skeleton_def)
    from sk(1) have "length (find_all_True cs) = length (find_all_True cs')"
      by (metis length_find_all_skeleton)
    with "3.prems"(2) 3 have "a = a'" "find_all_True cs = find_all_True cs'"
      "find_all_True ns = find_all_True ns'"
      by simp_all
    with sk "3.IH" 3 show ?thesis by simp
  qed
qed

lemma attrs_at_modify_tag:
  "i < length (find_all_True soup) \<Longrightarrow> j < length (find_all_True soup) \<Longrightarrow>
   attrs_at (modify_tag i f soup) j = (if j = i then f (attrs_at soup i) else attrs_at soup j)"
  by (simp add: attrs_at_def find_all_modify_tag)

lemma name_at_modify_tag:
  "i < length (find_all_True soup) \<Longrightarrow> j < length (find_all_True soup) \<Longrightarrow>
   name_at (modify_tag i f soup) j = name_at soup j"
  by (simp add: name_at_def find_all_modify_tag nth_list_update)

lemma fold_modify_tag_view:
  assumes "distinct positions" and "\<forall>i \<in> set positions. i < length (find_all_True soup)"
  shows "skeleton (fold (\<lambda>i. modify_tag i (f i)) positions soup) = skeleton soup
    \<and> length (find_all_True (fold (\<lambda>i. modify_tag i (f i)) positions soup))
        = length (find_all_True soup)
    \<and> (\<forall>j < length (find_all_True soup).
          name_at (fold (\<lambda>i. modify_tag i (f i)) positions soup) j = name_at soup j
        \<and> attrs_at (fold (\<lambda>i. modify_tag i (f i)) positions soup) j
          = (if j \<in> set positions then f j (attrs_at soup j) else attrs_at soup j))"
  using assms
proof (induction positions arbitrary: soup)
  case Nil
  then show ?case by simp
next
  case (Cons i positions)
  let ?s = "modify_tag i (f i) soup"
  have len: "length (find_all_True ?s) = length (find_all_True soup)"
    by (simp add: length_find_all_modify_tag)
  have "distinct positions" "\<forall>k \<in> set positions. k < length (find_all_True ?s)"
    using Cons.prems by (simp_all add: len)
  note IH = Cons.IH [OF this]
  have i: "i < length (find_all_True soup)" "i \<notin> set positions"
    using Cons.prems by simp_all
  show ?case
    using IH i
    by (auto simp: len skeleton_modify_tag attrs_at_modify_tag name_at_modify_tag)
qed

lemma soup_eq_by_tags:
  assumes "skeleton s = skeleton s'"
    and "length (find_all_True s) = length (find_all_True s')"
    and "\<forall>j < length (find_all_True s). name_at s j = name_at s' j \<and> attrs_at s j = attrs_at s' j"
  shows "s = s'"
proof (rule soup_eqI [OF assms(1)])
  show "find_all_True s = find_all_True s'"
    using assms(2,3)
    by (auto simp: list_eq_iff_nth_eq name_at_def attrs_at_def prod_eq_iff)
qed

lemma fold_modify_tag_for_each:
  assumes "distinct positions" and "\<forall>i \<in> set positions. i < length (find_all_True soup)"
    and "\<forall>j < length (find_all_True soup).
           (if j \<in> set positions then f j (attrs_at soup j) else attrs_at soup j)
           = body (name_at soup j) (attrs_at soup j)"
  shows "fold (\<lambda>i. modify_tag i (f i)) positions soup = for_each_tag body soup"
proof (rule soup_eq_by_tags)
  note v = fold_modify_tag_view [OF assms(1,2), of f]
  show "skeleton (fold (\<lambda>i. modify_tag i (f i)) positions soup)
        = skeleton (for_each_tag body soup)"
    using v by (simp add: skeleton_for_each_tag)
  show "length (find_all_True (fold (\<lambda>i. modify_tag i (f i)) positions soup))
        = length (find_all_True (for_each_tag body soup))"
    using v by (simp add: length_find_all_for_each_tag)
  show "\<forall>j < length (find_all_True (fold (\<lambda>i. modify_tag i (f i)) positions soup)).
          name_at (fold (\<lambda>i. modify_tag i (f i)) positions soup) j
            = name_at (for_each_tag body soup) j
        \<and> attrs_at (fold (\<lambda>i. modify_tag i (f i)) positions soup) j
            = attrs_at (for_each_tag body soup) j"
    using v assms(3) by (simp add: attrs_at_for_each_tag name_at_for_each_tag)
qed

lemma modify_tag_cong:
  assumes "i < length (find_all_True soup)" and "f (attrs_at soup i) = g (attrs_at soup i)"
  shows "modify_tag i f soup = modify_tag i g soup"
proof (rule soup_eqI)
  show "skeleton (modify_tag i f soup) = skeleton (modify_tag i g soup)"
    by (simp add: skeleton_modify_tag)
  show "find_all_True (modify_tag i f soup) = find_all_True (modify_tag i g soup)"
    using assms by (simp add: find_all_modify_tag attrs_at_def)
qed

lemma modify_tag_same:
  assumes "i < length (find_all_True soup)" and "f (attrs_at soup i) = attrs_at soup i"
  shows "modify_tag i f soup = soup"
proof (rule soup_eqI)
  show "skeleton (modify_tag i f soup) = skeleton soup"
    by (simp add: skeleton_modify_tag)
  show "find_all_True (modify_tag i f soup) = find_all_True soup"
    using assms by (simp add: find_all_modify_tag attrs_at_def)
qed

text \<open>A loop whose body raises on none of the visited tags changes each of them.\<close>

lemma for_each_position_total:
  assumes "distinct positions"
    and "\<forall>i \<in> set positions. i < length (find_all_True soup)"
    and "\<forall>i \<in> set positions. \<exists>d. body (attrs_at soup i) = Inr d"
  shows "for_each_position body positions soup
         = (Inr (), fold (\<lambda>i. modify_tag i (result_or_same body)) positions soup)"
  using assms
proof (induction positions arbitrary: soup)
  case Nil
  then show ?case by simp
next
  case (Cons i positions)
  from Cons.prems obtain d where d: "body (attrs_at soup i) = Inr d" by auto
  have i: "i < length (find_all_True soup)" "i \<notin> set positions"
    using Cons.prems by simp_all
  let ?s = "modify_tag i (result_or_same body) soup"
  have same: "modify_tag i (\<lambda>old. d) soup = ?s"
    using i d by (intro modify_tag_cong) (simp_all add: result_or_same_def)
  have "distinct positions"
    and "\<forall>k \<in> set positions. k < length (find_all_True ?s)"
    and "\<forall>k \<in> set positions. \<exists>d. body (attrs_at ?s k) = Inr d"
    using Cons.prems i by (auto simp: length_find_all_modify_tag attrs_at_modify_tag)
  then have "for_each_position body positions ?s
             = (Inr (), fold (\<lambda>i. modify_tag i (result_or_same body)) positions ?s)"
    by (rule Cons.IH)
  then show ?case
    by (simp add: d same)
qed

lemma for_each_position_for_each_tag:
  assumes "\<forall>i < length (find_all_True soup).
             (\<exists>d. body (attrs_at soup i) = Inr d)
             \<and> (i \<notin> set positions \<longrightarrow> result_or_same body (attrs_at soup i) = attrs_at soup i)"
    and "distinct positions" and "\<forall>i \<in> set positions. i < length (find_all_True soup)"
  shows "for_each_position body positions soup
         = (Inr (), for_each_tag (\<lambda>name. result_or_same body) soup)"
proof -
  have "fold (\<lambda>i. modify_tag i (result_or_same body)) positions soup
        = for_each_tag (\<lambda>name. result_or_same body) soup"
    using assms by (intro fold_modify_tag_for_each) auto
  moreover have "for_each_position body positions soup
        = (Inr (), fold (\<lambda>i. modify_tag i (result_or_same body)) positions soup)"
    using assms by (intro for_each_position_total) auto
  ultimately show ?thesis by simp
qed

text \<open>A loop whose body raises on one of the visited tags raises.\<close>

lemma for_each_position_raises:
  assumes "distinct positions" and "\<forall>k \<in> set positions. k < length (find_all_True soup)"
    and "i \<in> set positions" and "body (attrs_at soup i) = Inl e"
    and "\<forall>d e'. body d = Inl e' \<longrightarrow> e' = e"
  shows "fst (for_each_position body positions soup) = Inl e"
  using assms(1-4)
proof (induction positions arbitrary: soup)
  case Nil
  then show ?case by simp
next
  case (Cons j rest)
  show ?case
  proof (cases "body (attrs_at soup j)")
    case (Inl e')
    then have "e' = e" using assms(5) by blast
    then show ?thesis using Inl by simp
  next
    case (Inr d)
    let ?soup = "modify_tag j (\<lambda>old. d) soup"
    have ij: "i \<noteq> j" using Inr Cons.prems(4) by auto
    then have rest: "i \<in> set rest" using Cons.prems(3) by simp
    have "i < length (find_all_True soup)" "j < length (find_all_True soup)"
      using Cons.prems(2,3) by auto
    then have "attrs_at ?soup i = attrs_at soup i"
      using ij by (simp add: attrs_at_modify_tag)
    then have raises: "body (attrs_at ?soup i) = Inl e" using Cons.prems(4) by simp
    have distinct: "distinct rest" using Cons.prems(1) by simp
    have bound: "\<forall>k \<in> set rest. k < length (find_all_True ?soup)"
      using Cons.prems(2) by (simp add: length_find_all_modify_tag)
    have "fst (for_each_position body rest ?soup) = Inl e"
      by (rule Cons.IH [OF distinct bound rest raises])
    then show ?thesis using Inr by simp
  qed
qed

subsection \<open>Removing attributes twice\<close>

text \<open>
  Claim C8. \<^verbatim>\<open>remove_attributes\<close> is idempotent: for every tree and every non-empty
  list of attributes, the call on the tree that a first call left returns the same
  outcome and the same tree as the first call, because deleting an attribute that is
  absent changes nothing.
\<close>

theorem remove_attributes_idempotent:
  assumes "attributes \<noteq> []"
  shows "remove_attributes (Some attributes)
           (snd (remove_attributes (Some attributes) soup))
         = remove_attributes (Some attributes) soup"
  using assms
  by (simp add: remove_attributes_def for_each_tag_twice remove_each_twice)

theorem remove_attributes_idempotent_witness:
  "remove_attributes (Some [''width'', ''height''])
     (snd (remove_attributes (Some [''width'', ''height''])
        [Tag ''root'' []
           [Tag ''img'' [(''src'', Str ''image.png''), (''width'', Str ''500''), (''height'', Str ''300'')]
              []]]))
   = (Inr (), [Tag ''root'' [] [Tag ''img'' [(''src'', Str ''image.png'')] []]])"
  using remove_attributes_idempotent [of "[''width'', ''height'']"
      "[Tag ''root'' []
          [Tag ''img'' [(''src'', Str ''image.png''), (''width'', Str ''500''), (''height'', Str ''300'')]
             []]]"]
  by (simp add: remove_attributes_def has_attr_def del_attr_def)

subsection \<open>A rule set with no entry to remove\<close>

text \<open>
  Claim C10. For every tree, \<^verbatim>\<open>apply_rules\<close> (under every schedule of the pool) and
  \<^verbatim>\<open>apply_rules_async\<close>, called with a rule set whose \<^verbatim>\<open>remove_attributes\<close> key
  holds an empty list, raise a \<^verbatim>\<open>MarkupModificationError\<close> that wraps the
  \<^verbatim>\<open>IndexError\<close> of the missing first entry, and leave the tree as it was: no
  operation of the rule set runs.
\<close>

theorem apply_rules_no_first_entry:
  "apply_rules (rules\<lparr>remove_attributes_key := Some []\<rparr>) schedule soup
     = (Inl (MarkupModificationError ''Error during rule application''
               (Some ''list index out of range'')), soup)
   \<and> apply_rules_async (rules\<lparr>remove_attributes_key := Some []\<rparr>) soup
     = (Inl (MarkupModificationError ''Error during asynchronous rule application''
               (Some ''list index out of range'')), soup)"
  by (simp add: apply_rules_def submit_def submit_remove_def apply_rules_async_def
      await_remove_def and_then_def rewrap_def)

subsection \<open>Style values that match no property\<close>

text \<open>
  Claim C9. \<^verbatim>\<open>remove_style_properties\<close> does not leave unmatched elements as they
  are. The style \<^verbatim>\<open>color: red; border: 1px\<close> contains neither \<^verbatim>\<open>margin\<close> nor any
  other listed name, and the call still rewrites it to \<^verbatim>\<open>color: red;border: 1px\<close>:
  the kept declarations are trimmed and joined by \<^verbatim>\<open>;\<close> alone. Semicolons at the
  start of the value are stripped as those at its end are: \<^verbatim>\<open>;color: red;\<close>
  becomes \<^verbatim>\<open>color: red\<close>.
\<close>

theorem remove_style_properties_rewrites_unmatched:
  "\<not> contains ''color: red; border: 1px'' ''margin''
   \<and> remove_style_properties (Some [''margin''])
       [Tag ''root'' []
          [Tag ''p'' [(''style'', Str ''color: red; border: 1px'')] [NavigableString ''x'']]]
     = (Inr (),
        [Tag ''root'' []
           [Tag ''p'' [(''style'', Str ''color: red;border: 1px'')] [NavigableString ''x'']]])
   \<and> \<not> contains '';color: red;'' ''margin''
   \<and> remove_style_properties (Some [''margin''])
       [Tag ''p'' [(''style'', Str '';color: red;'')] []]
     = (Inr (), [Tag ''p'' [(''style'', Str ''color: red'')] []])"
  by (simp add: remove_style_properties_def rewrap_def attrs_at_def remove_style_body_def
      updated_style_def get_attr_def strip_semicolon_def strip_def strip_chars_def startswith_def isspace_def)

subsection \<open>Removing style properties\<close>

lemma updated_style_kept: "updated_style properties style = kept_style properties style"
  by (simp add: updated_style_def kept_style_def kept_declarations_def strip_semicolon_def
      startswith_def list_ex_iff)

text \<open>
  Claim C3, as stated, fails: the joined declarations are stripped of \<^verbatim>\<open>;\<close> at
  both ends, not only at the end. With the properties \<^verbatim>\<open>["border"]\<close> the style
  \<^verbatim>\<open>;color: red\<close> becomes \<^verbatim>\<open>color: red\<close>, where the description gives
  \<^verbatim>\<open>;color: red\<close>.
\<close>

theorem remove_style_properties_leading_semicolon:
  "remove_style_properties (Some [''border'']) [Tag ''p'' [(''style'', Str '';color: red'')] []]
     = (Inr (), [Tag ''p'' [(''style'', Str ''color: red'')] []])
   \<and> described_style [''border''] '';color: red'' = '';color: red''"
  by (simp add: remove_style_properties_def rewrap_def attrs_at_def remove_style_body_def
      updated_style_def described_style_def kept_declarations_def get_attr_def strip_semicolon_def strip_def
      strip_chars_def rstrip_chars_def startswith_def isspace_def)

lemma remove_style_properties_strings:
  assumes "properties \<noteq> []"
    and "\<forall>e \<in> set (find_all_True soup). \<forall>parts. get_attr (snd e) ''style'' \<noteq> Some (Multi parts)"
  shows "remove_style_properties (Some properties) soup
         = (Inr (), for_each_tag (\<lambda>name. result_or_same (remove_style_body properties)) soup)"
proof -
  have "\<exists>d. remove_style_body properties (attrs_at soup i) = Inr d"
    if "i < length (find_all_True soup)" for i
  proof -
    have "\<forall>parts. get_attr (attrs_at soup i) ''style'' \<noteq> Some (Multi parts)"
      using assms(2) that nth_mem [of i "find_all_True soup"] by (auto simp: attrs_at_def)
    then show ?thesis
      by (auto simp: remove_style_body_def Let_def split: option.splits attr_value.splits)
  qed
  then have "for_each_position (remove_style_body properties)
               [0 ..< length (find_all_True soup)] soup
             = (Inr (), for_each_tag (\<lambda>name. result_or_same (remove_style_body properties)) soup)"
    by (intro for_each_position_for_each_tag) auto
  then show ?thesis
    using assms(1) by (simp add: remove_style_properties_def rewrap_def)
qed

text \<open>
  Claim C3, amended. The parser never stores a list under \<^verbatim>\<open>style\<close>. For every such
  tree and every non-empty list of properties, \<^verbatim>\<open>remove_style_properties\<close> returns
  normally and keeps the tags and their names; on every tag it leaves all attributes
  other than \<^verbatim>\<open>style\<close> as they were; a tag without \<^verbatim>\<open>style\<close> gets none; and a
  \<^verbatim>\<open>style\<close> value is split on \<^verbatim>\<open>;\<close>, the declarations whose trimmed text starts
  with one of the properties are dropped (a prefix match), the kept ones are trimmed
  and rejoined with \<^verbatim>\<open>;\<close>, and \<^verbatim>\<open>;\<close> is stripped at both ends: if the result is
  empty the attribute is deleted, otherwise it is set to the result.
\<close>

theorem remove_style_properties_effect:
  assumes "properties \<noteq> []"
    and "\<forall>e \<in> set (find_all_True soup). \<forall>parts. get_attr (snd e) ''style'' \<noteq> Some (Multi parts)"
  shows "fst (remove_style_properties (Some properties) soup) = Inr ()
    \<and> length (find_all_True (snd (remove_style_properties (Some properties) soup)))
        = length (find_all_True soup)
    \<and> (\<forall>i < length (find_all_True soup).
          name_at (snd (remove_style_properties (Some properties) soup)) i = name_at soup i
        \<and> (\<forall>k. k \<noteq> ''style'' \<longrightarrow>
              get_attr (attrs_at (snd (remove_style_properties (Some properties) soup)) i) k
              = get_attr (attrs_at soup i) k)
        \<and> get_attr (attrs_at (snd (remove_style_properties (Some properties) soup)) i) ''style''
          = (case get_attr (attrs_at soup i) ''style'' of
               None \<Rightarrow> None
             | Some (Str style) \<Rightarrow>
                 if kept_style properties style = [] then None
                 else Some (Str (kept_style properties style))
             | Some (Multi parts) \<Rightarrow> Some (Multi parts)))"
proof -
  have each: "\<forall>parts. get_attr (attrs_at soup i) ''style'' \<noteq> Some (Multi parts)"
    if "i < length (find_all_True soup)" for i
    using assms(2) that nth_mem [of i "find_all_True soup"] by (auto simp: attrs_at_def)
  show ?thesis
    unfolding remove_style_properties_strings [OF assms]
    using each
    by (auto simp: length_find_all_for_each_tag attrs_at_for_each_tag name_at_for_each_tag
        result_or_same_def remove_style_body_def updated_style_kept get_attr_set_attr
        get_attr_del_attr Let_def split: option.splits attr_value.splits)
qed

theorem remove_style_properties_effect_witness:
  "[''color''] \<noteq> ([] :: string list)
   \<and> get_attr
       (attrs_at
          (snd (remove_style_properties (Some [''color''])
             [Tag ''div''
                [(''class'', Multi [''x'']), (''style'', Str ''color-scheme: dark; margin: 0;'')]
                []])) 0) ''style''
     = Some (Str ''margin: 0'')"
  using remove_style_properties_effect [where properties = "[''color'']"
      and soup = "[Tag ''div''
                [(''class'', Multi [''x'']), (''style'', Str ''color-scheme: dark; margin: 0;'')]
                []]"]
  by (simp add: attrs_at_def get_attr_def kept_style_def kept_declarations_def strip_def
      strip_chars_def isspace_def)

subsection \<open>Replacing inside attribute values\<close>

lemma replace_nonempty_absent:
  "\<not> contains s old \<Longrightarrow> replace_nonempty s old new = s"
  by (induction s old new rule: replace_nonempty.induct) auto

lemma replace_absent:
  assumes "\<not> contains s old"
  shows "replace s old new = s"
proof (cases "old = []")
  case True
  have "contains s []" by (induction s) auto
  with assms True show ?thesis by simp
next
  case False
  with assms show ?thesis
    by (simp add: replace_def replace_nonempty_absent)
qed

lemma distinct_find_all_attrs: "distinct (find_all_attrs attribute soup)"
  by (simp add: find_all_attrs_def)

lemma set_find_all_attrs:
  "set (find_all_attrs attribute soup)
   = {i. i < length (find_all_True soup) \<and> has_attr (attrs_at soup i) attribute}"
  by (auto simp: find_all_attrs_def)

lemma replace_attribute_value_strings:
  assumes "\<forall>e \<in> set (find_all_True soup). \<forall>parts.
             get_attr (snd e) attribute = Some (Multi parts) \<longrightarrow> parts = []"
  shows "replace_attribute_value attribute old_value new_value soup
         = (Inr (), for_each_tag
                      (\<lambda>name. result_or_same (replace_body attribute old_value new_value)) soup)"
proof -
  have "(\<exists>d. replace_body attribute old_value new_value (attrs_at soup i) = Inr d)
      \<and> (i \<notin> set (find_all_attrs attribute soup) \<longrightarrow>
           result_or_same (replace_body attribute old_value new_value) (attrs_at soup i)
           = attrs_at soup i)"
    if "i < length (find_all_True soup)" for i
  proof -
    have "\<forall>parts. get_attr (attrs_at soup i) attribute = Some (Multi parts) \<longrightarrow> parts = []"
      using assms that nth_mem [of i "find_all_True soup"] by (auto simp: attrs_at_def)
    then show ?thesis
      using that
      by (auto simp: replace_body_def result_or_same_def set_find_all_attrs has_attr_def
          get_attr_def Let_def split: option.splits attr_value.splits)
  qed
  then have "for_each_position (replace_body attribute old_value new_value)
               (find_all_attrs attribute soup) soup
             = (Inr (), for_each_tag
                          (\<lambda>name. result_or_same (replace_body attribute old_value new_value))
                          soup)"
    by (intro for_each_position_for_each_tag)
       (auto simp: distinct_find_all_attrs set_find_all_attrs)
  then show ?thesis
    by (simp add: replace_attribute_value_def rewrap_def)
qed

text \<open>
  A tag whose attribute holds a non-empty list makes the call raise: the list has no
  \<^verbatim>\<open>replace\<close>, and the \<^verbatim>\<open>except\<close> clause wraps the \<^verbatim>\<open>AttributeError\<close>.
\<close>

lemma replace_attribute_value_list_value:
  assumes "i < length (find_all_True soup)"
    and "get_attr (attrs_at soup i) attribute = Some (Multi parts)" and "parts \<noteq> []"
  shows "fst (replace_attribute_value attribute old_value new_value soup)
         = Inl (MarkupModificationError ''Error during attribute value replacement''
                  (Some (list_has_no_attribute ''replace'')))"
proof -
  let ?body = "replace_body attribute old_value new_value"
  let ?e = "AttributeError (list_has_no_attribute ''replace'')"
  have "i \<in> set (find_all_attrs attribute soup)"
    using assms by (simp add: set_find_all_attrs has_attr_def get_attr_def)
  moreover have "?body (attrs_at soup i) = Inl ?e"
    using assms by (simp add: replace_body_def)
  moreover have "\<forall>d e'. ?body d = Inl e' \<longrightarrow> e' = ?e"
    by (auto simp: replace_body_def Let_def split: option.splits attr_value.splits if_splits)
  moreover have "\<forall>k \<in> set (find_all_attrs attribute soup). k < length (find_all_True soup)"
    by (simp add: set_find_all_attrs)
  ultimately have "fst (for_each_position ?body (find_all_attrs attribute soup) soup) = Inl ?e"
    using distinct_find_all_attrs [of attribute soup]
      for_each_position_raises [where body = ?body and i = i and soup = soup and e = ?e
        and positions = "find_all_attrs attribute soup"]
    by blast
  then show ?thesis
    by (cases "for_each_position ?body (find_all_attrs attribute soup) soup")
       (simp add: replace_attribute_value_def rewrap_def)
qed

text \<open>
  Claim C4, as stated, fails. The arguments are stripped of \<^verbatim>\<open>;\<close> at both ends:
  with \<^verbatim>\<open>old_value = ";b"\<close> and \<^verbatim>\<open>new_value = "c"\<close> the value \<^verbatim>\<open>ab\<close>, which does
  not contain \<^verbatim>\<open>;b\<close>, becomes \<^verbatim>\<open>ac\<close>, where a replacement of the old value trimmed
  of trailing \<^verbatim>\<open>;\<close> leaves \<^verbatim>\<open>ab\<close>. An empty value is skipped: with
  \<^verbatim>\<open>old_value = ";"\<close> and \<^verbatim>\<open>new_value = "x"\<close> the empty value stays empty, where the
  replacement gives \<^verbatim>\<open>x\<close>. And a tag that has the attribute need not get a
  replacement at all: in \<^verbatim>\<open><span rel="nofollow"></span><a rel="nofollow"></a>\<close> the
  parser stores a list for \<^verbatim>\<open>rel\<close> on \<^verbatim>\<open>a\<close>, and the call raises there, with the
  \<^verbatim>\<open>span\<close> before it rewritten and the \<^verbatim>\<open>a\<close> as it was.
\<close>

theorem replace_attribute_value_not_as_described:
  "replace_attribute_value ''style'' '';b'' ''c''
       [Tag ''root'' [] [Tag ''p'' [(''style'', Str ''ab'')] []]]
     = (Inr (), [Tag ''root'' [] [Tag ''p'' [(''style'', Str ''ac'')] []]])
   \<and> \<not> contains ''ab'' '';b''
   \<and> replace ''ab'' (rstrip_semicolon '';b'') (rstrip_semicolon ''c'') = ''ab''
   \<and> replace_attribute_value ''alt'' '';'' ''x''
       [Tag ''root'' [] [Tag ''img'' [(''alt'', Str [])] []]]
     = (Inr (), [Tag ''root'' [] [Tag ''img'' [(''alt'', Str [])] []]])
   \<and> replace [] (rstrip_semicolon '';'') (rstrip_semicolon ''x'') = ''x''
   \<and> isl (fst (replace_attribute_value ''rel'' ''nofollow'' ''follow''
               [Tag ''root'' []
                  [Tag ''span'' [(''rel'', Str ''nofollow'')] [],
                   Tag ''a'' [(''rel'', Multi [''nofollow''])] []]]))
   \<and> snd (replace_attribute_value ''rel'' ''nofollow'' ''follow''
               [Tag ''root'' []
                  [Tag ''span'' [(''rel'', Str ''nofollow'')] [],
                   Tag ''a'' [(''rel'', Multi [''nofollow''])] []]])
     = [Tag ''root'' []
          [Tag ''span'' [(''rel'', Str ''follow'')] [],
           Tag ''a'' [(''rel'', Multi [''nofollow''])] []]]"
  by (simp add: replace_attribute_value_def find_all_attrs_def rewrap_def replace_body_def
      attrs_at_def has_attr_def get_attr_def replace_def strip_semicolon_def strip_chars_def
      rstrip_semicolon_def rstrip_chars_def)

text \<open>
  Claim C4, amended. Take a tree in which the named attribute holds no list other
  than the empty one (the parser stores lists for its multi-valued attributes, such as
  \<^verbatim>\<open>class\<close>). \<^verbatim>\<open>replace_attribute_value\<close> returns normally and keeps the tags and
  their names. On a tag whose attribute has a non-empty string value, the new value is
  the current one with every occurrence of \<^verbatim>\<open>old_value\<close>, stripped of \<^verbatim>\<open>;\<close> at both
  ends, replaced by \<^verbatim>\<open>new_value\<close>, stripped likewise; the other attributes are
  unchanged, and when the value does not change the attributes are left as they are.
  The call is a no-op on a tag that lacks the attribute, on a tag whose value is
  empty, and on a tag whose value does not contain the stripped \<^verbatim>\<open>old_value\<close>.
\<close>

theorem replace_attribute_value_effect:
  assumes "\<forall>e \<in> set (find_all_True soup). \<forall>parts.
             get_attr (snd e) attribute = Some (Multi parts) \<longrightarrow> parts = []"
  shows "fst (replace_attribute_value attribute old_value new_value soup) = Inr ()
   \<and> length (find_all_True (snd (replace_attribute_value attribute old_value new_value soup)))
       = length (find_all_True soup)
   \<and> (\<forall>i < length (find_all_True soup).
        name_at (snd (replace_attribute_value attribute old_value new_value soup)) i
          = name_at soup i
      \<and> (case get_attr (attrs_at soup i) attribute of
           None \<Rightarrow>
             attrs_at (snd (replace_attribute_value attribute old_value new_value soup)) i
               = attrs_at soup i
         | Some (Multi parts) \<Rightarrow>
             attrs_at (snd (replace_attribute_value attribute old_value new_value soup)) i
               = attrs_at soup i
         | Some (Str current_value) \<Rightarrow>
             (current_value \<noteq> [] \<longrightarrow>
                get_attr
                  (attrs_at (snd (replace_attribute_value attribute old_value new_value soup)) i)
                  attribute
                  = Some (Str (replace current_value (strip_semicolon old_value)
                                 (strip_semicolon new_value)))
                \<and> (\<forall>k. k \<noteq> attribute \<longrightarrow>
                      get_attr
                        (attrs_at (snd (replace_attribute_value attribute old_value
                                          new_value soup)) i) k
                      = get_attr (attrs_at soup i) k))
           \<and> (current_value = []
                \<or> \<not> contains current_value (strip_semicolon old_value)
                \<or> replace current_value (strip_semicolon old_value)
                     (strip_semicolon new_value) = current_value \<longrightarrow>
                attrs_at (snd (replace_attribute_value attribute old_value new_value soup)) i
                  = attrs_at soup i)))"
proof -
  have each: "\<forall>parts. get_attr (attrs_at soup i) attribute = Some (Multi parts) \<longrightarrow> parts = []"
    if "i < length (find_all_True soup)" for i
    using assms that nth_mem [of i "find_all_True soup"] by (auto simp: attrs_at_def)
  show ?thesis
    unfolding replace_attribute_value_strings [OF assms]
    using each
    by (auto simp: length_find_all_for_each_tag attrs_at_for_each_tag name_at_for_each_tag
        result_or_same_def replace_body_def replace_absent get_attr_set_attr Let_def
        split: option.splits attr_value.splits)
qed

theorem replace_attribute_value_effect_witness:
  "get_attr
     (attrs_at
        (snd (replace_attribute_value ''style'' '';color: red;'' ''color: blue;''
           [Tag ''root'' []
              [Tag ''div'' [(''class'', Multi []), (''style'', Str ''color: red;'')] []]]))
        1)
     ''style''
   = Some (Str ''color: blue;'')"
  using replace_attribute_value_effect [where attribute = "''style''"
      and old_value = "'';color: red;''" and new_value = "''color: blue;''"
      and soup = "[Tag ''root'' []
              [Tag ''div'' [(''class'', Multi []), (''style'', Str ''color: red;'')] []]]"]
  by (simp add: All_less_Suc attrs_at_def get_attr_def replace_def strip_semicolon_def
      strip_chars_def)

subsection \<open>Adding an attribute\<close>

text \<open>
  Claim C7. The parser hands over tag names in lower case. On such a tree
  \<^verbatim>\<open>add_attribute\<close> returns normally, keeps the tags and their names, and on every
  tag whose name equals \<^verbatim>\<open>tag\<close> up to case it sets the attribute to the value and
  leaves the other attributes; the other tags keep their attributes. A second call
  overwrites: after \<^verbatim>\<open>(tag, attribute, value1)\<close> and then
  \<^verbatim>\<open>(tag, attribute, value2)\<close> the attribute is \<^verbatim>\<open>value2\<close> on each such tag, and
  the tree is the one that the second call alone gives.
\<close>

theorem add_attribute_overwrites:
  assumes "\<forall>e \<in> set (find_all_True soup). fst e = lower (fst e)"
  shows "fst (add_attribute tag attribute value1 soup) = Inr ()
   \<and> add_attribute tag attribute value2 (snd (add_attribute tag attribute value1 soup))
       = add_attribute tag attribute value2 soup
   \<and> length (find_all_True (snd (add_attribute tag attribute value1 soup)))
       = length (find_all_True soup)
   \<and> (\<forall>i < length (find_all_True soup).
        name_at (snd (add_attribute tag attribute value1 soup)) i = name_at soup i
      \<and> (if lower (name_at soup i) = lower tag
         then get_attr (attrs_at (snd (add_attribute tag attribute value1 soup)) i) attribute
                = Some (Str value1)
              \<and> (\<forall>k. k \<noteq> attribute \<longrightarrow>
                    get_attr (attrs_at (snd (add_attribute tag attribute value1 soup)) i) k
                    = get_attr (attrs_at soup i) k)
              \<and> get_attr
                  (attrs_at (snd (add_attribute tag attribute value2
                                    (snd (add_attribute tag attribute value1 soup)))) i)
                  attribute
                = Some (Str value2)
         else attrs_at (snd (add_attribute tag attribute value1 soup)) i = attrs_at soup i))"
proof -
  have names: "name_at soup i = lower (name_at soup i)"
    if "i < length (find_all_True soup)" for i
    using assms that by (simp add: name_at_def)
  have twice: "add_body tag attribute value2 n (add_body tag attribute value1 n d)
               = add_body tag attribute value2 n d" for n d
    by (simp add: add_body_def set_attr_twice)
  have overwrite: "add_attribute tag attribute value2
                     (snd (add_attribute tag attribute value1 soup))
                   = add_attribute tag attribute value2 soup"
    by (simp add: add_attribute_def for_each_tag_twice twice)
  have each: "name_at (snd (add_attribute tag attribute value1 soup)) i = name_at soup i
      \<and> (if lower (name_at soup i) = lower tag
         then get_attr (attrs_at (snd (add_attribute tag attribute value1 soup)) i) attribute
                = Some (Str value1)
              \<and> (\<forall>k. k \<noteq> attribute \<longrightarrow>
                    get_attr (attrs_at (snd (add_attribute tag attribute value1 soup)) i) k
                    = get_attr (attrs_at soup i) k)
              \<and> get_attr
                  (attrs_at (snd (add_attribute tag attribute value2
                                    (snd (add_attribute tag attribute value1 soup)))) i)
                  attribute
                = Some (Str value2)
         else attrs_at (snd (add_attribute tag attribute value1 soup)) i = attrs_at soup i)"
    if "i < length (find_all_True soup)" for i
    using names [OF that] that unfolding overwrite
    by (auto simp: add_attribute_def attrs_at_for_each_tag name_at_for_each_tag add_body_def
        get_attr_set_attr)
  have returns: "fst (add_attribute tag attribute value1 soup) = Inr ()"
    by (simp add: add_attribute_def)
  have tags: "length (find_all_True (snd (add_attribute tag attribute value1 soup)))
              = length (find_all_True soup)"
    by (simp add: add_attribute_def length_find_all_for_each_tag)
  from returns overwrite tags each show ?thesis
    by blast
qed

theorem add_attribute_overwrites_witness:
  "lower ''root'' = ''root'' \<and> lower ''a'' = ''a''
   \<and> add_attribute ''A'' ''target'' ''_blank''
       (snd (add_attribute ''A'' ''target'' ''_self''
          [Tag ''root'' []
             [Tag ''a'' [(''href'', Str ''https://example.com'')]
                [NavigableString ''Click Here'']]]))
     = (Inr (),
        [Tag ''root'' []
           [Tag ''a'' [(''href'', Str ''https://example.com''), (''target'', Str ''_blank'')]
              [NavigableString ''Click Here'']]])"
proof -
  have l: "lower ''root'' = ''root''" "lower ''a'' = ''a''" "lower ''A'' = ''a''"
    by code_simp+
  have h: "\<forall>e \<in> set (find_all_True
       [Tag ''root'' []
          [Tag ''a'' [(''href'', Str ''https://example.com'')] [NavigableString ''Click Here'']]]).
      fst e = lower (fst e)"
    by (simp add: l)
  show ?thesis
    using h add_attribute_overwrites [OF h, of "''A''" "''target''" "''_blank''" "''_self''"]
    by (simp add: add_attribute_def add_body_def l)
qed

subsection \<open>A call of \<^verbatim>\<open>remove_attributes\<close> in the pool\<close>

declare run_to_end.simps [simp del]

lemma run_to_end_Finished: "run_to_end (Finished r) soup = (r, soup)"
  by (simp add: run_to_end.simps)

lemma run_to_end_step:
  "\<not> is_finished t \<Longrightarrow> run_to_end t soup = run_to_end (fst (step t soup)) (snd (step t soup))"
  by (cases t) (simp_all add: run_to_end.simps)

lemma run_to_end_RemoveLoop:
  "run_to_end (RemoveLoop work) soup = (Inr (), fold remove_step work soup)"
proof (induction work arbitrary: soup)
  case Nil
  then show ?case
    by (simp add: run_to_end_step run_to_end_Finished)
next
  case (Cons w work)
  obtain i a where w: "w = (i, a)" by (cases w)
  have "step (RemoveLoop (w # work)) soup = (RemoveLoop work, remove_step w soup)"
    by (simp add: w remove_step_def)
  then show ?case
    by (subst run_to_end_step) (simp_all add: Cons.IH)
qed

lemma find_all_remove_step:
  "fst w < length (find_all_True soup) \<Longrightarrow>
   find_all_True (remove_step w soup) = remove_in_view w (find_all_True soup)"
  by (simp add: remove_step_def remove_in_view_def find_all_modify_tag attrs_at_def
      del_attr_absent)

lemma length_find_all_remove_step:
  "length (find_all_True (remove_step w soup)) = length (find_all_True soup)"
  by (simp add: remove_step_def length_find_all_modify_tag)

lemma skeleton_remove_step: "skeleton (remove_step w soup) = skeleton soup"
  by (simp add: remove_step_def skeleton_modify_tag)

lemma skeleton_fold_remove_step: "skeleton (fold remove_step work soup) = skeleton soup"
  by (induction work arbitrary: soup) (simp_all add: skeleton_remove_step)

lemma find_all_fold_remove_step:
  "\<forall>w \<in> set work. fst w < length (find_all_True soup) \<Longrightarrow>
   find_all_True (fold remove_step work soup) = fold remove_in_view work (find_all_True soup)"
proof (induction work arbitrary: soup)
  case Nil
  then show ?case by simp
next
  case (Cons w work)
  have "\<forall>w' \<in> set work. fst w' < length (find_all_True (remove_step w soup))"
    using Cons.prems by (simp add: length_find_all_remove_step)
  then have "find_all_True (fold remove_step work (remove_step w soup))
             = fold remove_in_view work (find_all_True (remove_step w soup))"
    by (rule Cons.IH)
  then show ?case
    using Cons.prems by (simp add: find_all_remove_step)
qed

lemma fold_concat_rows: "fold f (concat xss) v = fold (\<lambda>xs. fold f xs) xss v"
  by (induction xss arbitrary: v) simp_all

lemma length_remove_in_view: "length (remove_in_view w v) = length v"
  by (simp add: remove_in_view_def)

lemma fold_remove_in_view_row:
  "i < length v \<Longrightarrow>
   fold remove_in_view (map (Pair i) as) v = v[i := (fst (v ! i), remove_each as (snd (v ! i)))]"
proof (induction as arbitrary: v)
  case Nil
  then show ?case by simp
next
  case (Cons a as)
  have "(if has_attr d a then del_attr d a else d) = del_attr d a" for d
    by (simp add: del_attr_absent)
  with Cons show ?case
    by (simp add: remove_in_view_def)
qed

lemma fold_rows:
  "n \<le> length v \<Longrightarrow>
   fold (\<lambda>i. fold remove_in_view (map (Pair i) as)) [0 ..< n] v
   = map (\<lambda>(name, d). (name, remove_each as d)) (take n v) @ drop n v"
proof (induction n)
  case 0
  then show ?case by simp
next
  case (Suc n)
  then have n: "n < length v" by simp
  let ?g = "\<lambda>(name, d). (name, remove_each as d)"
  let ?u = "map ?g (take n v) @ drop n v"
  have len: "n < length ?u" using n by simp
  have nth: "?u ! n = v ! n" using n by (simp add: nth_append)
  have "fold (\<lambda>i. fold remove_in_view (map (Pair i) as)) [0 ..< Suc n] v
        = fold remove_in_view (map (Pair n) as) ?u"
    using Suc by simp
  also have "\<dots> = ?u[n := (fst (v ! n), remove_each as (snd (v ! n)))]"
    using fold_remove_in_view_row [OF len] nth by simp
  also have "\<dots> = map ?g (take (Suc n) v) @ drop (Suc n) v"
  proof -
    have "drop n v = v ! n # drop (Suc n) v"
      using n by (simp add: Cons_nth_drop_Suc)
    then show ?thesis
      using n by (simp add: list_update_append take_Suc_conv_app_nth split_beta)
  qed
  finally show ?case .
qed

lemma fold_remove_in_view_product:
  "fold remove_in_view (List.product [0 ..< length v] as) v
   = map (\<lambda>(name, d). (name, remove_each as d)) v"
proof -
  have "List.product [0 ..< length v] as = concat (map (\<lambda>i. map (Pair i) as) [0 ..< length v])"
    by (simp add: product_concat_map)
  then show ?thesis
    using fold_rows [of "length v" v as]
    by (simp add: fold_concat_rows fold_map comp_def)
qed

lemma fold_remove_step_product:
  "fold remove_step (List.product [0 ..< length (find_all_True soup)] as) soup
   = for_each_tag (\<lambda>name d. remove_each as d) soup"
proof (rule soup_eqI)
  show "skeleton (fold remove_step (List.product [0 ..< length (find_all_True soup)] as) soup)
        = skeleton (for_each_tag (\<lambda>name d. remove_each as d) soup)"
    by (simp add: skeleton_fold_remove_step skeleton_for_each_tag)
  show "find_all_True (fold remove_step (List.product [0 ..< length (find_all_True soup)] as) soup)
        = find_all_True (for_each_tag (\<lambda>name d. remove_each as d) soup)"
    by (subst find_all_fold_remove_step)
       (auto simp: fold_remove_in_view_product find_all_for_each_tag)
qed

lemma run_to_end_remove:
  "run_to_end (Pending (RemoveAttributes attributes)) soup = remove_attributes attributes soup"
  by (subst run_to_end_step)
     (auto simp: remove_attributes_def run_to_end_RemoveLoop run_to_end_Finished
        fold_remove_step_product)

subsection \<open>The pool\<close>

lemma run_schedule_all_finished:
  "\<forall>t \<in> set tasks. is_finished t \<Longrightarrow>
   run_schedule schedule tasks completed soup = (tasks, completed, soup)"
  by (induction schedule) (auto simp: all_set_conv_all_nth)

lemma single_task_pool:
  "\<not> is_finished t \<Longrightarrow>
   (case run_schedule schedule [t] [] soup of
      (tasks, completed, soup') \<Rightarrow> join_all tasks completed soup')
   = ([fst (run_to_end t soup)], snd (run_to_end t soup))"
proof (induction schedule arbitrary: t soup)
  case Nil
  then show ?case by (simp add: split_beta)
next
  case (Cons k schedule)
  show ?case
  proof (cases "k < 1")
    case False
    with Cons show ?thesis by simp
  next
    case True
    obtain t' soup' where st: "step t soup = (t', soup')" by (cases "step t soup")
    have run: "run_to_end t soup = run_to_end t' soup'"
      using Cons.prems st by (simp add: run_to_end_step)
    show ?thesis
    proof (cases t')
      case (Finished r)
      then show ?thesis
        using True Cons.prems st run
        by (simp add: run_schedule_all_finished run_to_end_Finished)
    qed (use True Cons st run in auto)
  qed
qed

lemma thread_pool_single:
  "thread_pool schedule [operation] soup
   = ([fst (run_to_end (Pending operation) soup)], snd (run_to_end (Pending operation) soup))"
  unfolding thread_pool_def
  using single_task_pool [of "Pending operation" schedule soup] by simp

lemma apply_rules_only_remove:
  "apply_rules \<lparr>remove_attributes_key = Some (Attributes attributes # rest),
                replace_attributes_key = None, add_attributes_key = None\<rparr> schedule soup
   = rewrap ''Error during rule application'' (remove_attributes attributes soup)"
  by (cases "remove_attributes attributes soup"; cases "fst (remove_attributes attributes soup)")
     (auto simp: apply_rules_def submit_def submit_remove_def submit_replace_def submit_add_def
        thread_pool_single run_to_end_remove rewrap_def)

lemma apply_rules_async_only_remove:
  "apply_rules_async \<lparr>remove_attributes_key = Some (Attributes attributes # rest),
                replace_attributes_key = None, add_attributes_key = None\<rparr> soup
   = rewrap ''Error during asynchronous rule application'' (remove_attributes attributes soup)"
  by (cases "remove_attributes attributes soup"; cases "fst (remove_attributes attributes soup)")
     (auto simp: apply_rules_async_def await_remove_def await_replace_def await_add_def
        and_then_def rewrap_def)

lemma completed_grows_run_schedule:
  "run_schedule schedule tasks completed soup = (tasks', completed', soup') \<Longrightarrow>
   set completed \<subseteq> set completed'"
proof (induction schedule arbitrary: tasks completed soup)
  case Nil
  then show ?case by simp
next
  case (Cons k schedule)
  show ?case
  proof (cases "k < length tasks \<and> \<not> is_finished (tasks ! k)")
    case False
    with Cons show ?thesis by auto
  next
    case True
    obtain t s where st: "step (tasks ! k) soup = (t, s)" by (cases "step (tasks ! k) soup")
    let ?c = "case t of Finished r \<Rightarrow> completed @ [r] | _ \<Rightarrow> completed"
    from Cons.prems True st
    have "run_schedule schedule (tasks[k := t]) ?c s = (tasks', completed', soup')"
      by simp
    then have "set ?c \<subseteq> set completed'" by (rule Cons.IH)
    moreover have "set completed \<subseteq> set ?c" by (cases t) auto
    ultimately show ?thesis by blast
  qed
qed

lemma completed_grows_join_all:
  "set completed \<subseteq> set (fst (join_all tasks completed soup))"
proof (induction tasks arbitrary: completed soup)
  case Nil
  then show ?case by simp
next
  case (Cons t tasks)
  show ?case
  proof (cases "is_finished t")
    case True
    with Cons show ?thesis by simp
  next
    case False
    obtain r s where run: "run_to_end t soup = (r, s)" by (cases "run_to_end t soup")
    have "set (completed @ [r]) \<subseteq> set (fst (join_all tasks (completed @ [r]) s))"
      by (rule Cons.IH)
    with False run show ?thesis by simp
  qed
qed

lemma first_exception_None_iff:
  "first_exception completed = None \<longleftrightarrow> (\<forall>e. Inl e \<notin> set completed)"
  by (induction completed rule: first_exception.induct) auto

lemma failing_remove_in_run_schedule:
  assumes "attributes = None \<or> attributes = Some []"
    and "tasks \<noteq> []" and "hd tasks = Pending (RemoveAttributes attributes)"
    and "run_schedule schedule tasks completed soup = (tasks', completed', soup')"
  shows "(tasks' \<noteq> [] \<and> hd tasks' = Pending (RemoveAttributes attributes))
         \<or> (\<exists>e. Inl e \<in> set completed')"
  using assms(2-4)
proof (induction schedule arbitrary: tasks completed soup)
  case Nil
  then show ?case by simp
next
  case (Cons k schedule)
  show ?case
  proof (cases "k < length tasks \<and> \<not> is_finished (tasks ! k)")
    case False
    with Cons show ?thesis by auto
  next
    case True
    obtain t s where st: "step (tasks ! k) soup = (t, s)" by (cases "step (tasks ! k) soup")
    let ?c = "case t of Finished r \<Rightarrow> completed @ [r] | _ \<Rightarrow> completed"
    from Cons.prems True st
    have run: "run_schedule schedule (tasks[k := t]) ?c s = (tasks', completed', soup')"
      by simp
    show ?thesis
    proof (cases k)
      case 0
      with Cons.prems(1,2) have "tasks ! k = Pending (RemoveAttributes attributes)"
        by (simp add: hd_conv_nth)
      with st assms(1) obtain e where "t = Finished (Inl e)" by auto
      then have "Inl e \<in> set ?c" by simp
      with completed_grows_run_schedule [OF run] show ?thesis by blast
    next
      case (Suc j)
      with Cons.prems(1,2) have "tasks[k := t] \<noteq> []" "hd (tasks[k := t]) = Pending (RemoveAttributes attributes)"
        by (cases tasks; simp)+
      then show ?thesis using run by (rule Cons.IH)
    qed
  qed
qed

lemma failing_remove_in_thread_pool:
  assumes "attributes = None \<or> attributes = Some []"
  shows "\<exists>e. Inl e \<in> set (fst (thread_pool schedule (RemoveAttributes attributes # futures) soup))"
proof -
  obtain tasks completed soup' where
    run: "run_schedule schedule (map Pending (RemoveAttributes attributes # futures)) [] soup
          = (tasks, completed, soup')"
    by (cases "run_schedule schedule (map Pending (RemoveAttributes attributes # futures)) [] soup")
  have pool: "thread_pool schedule (RemoveAttributes attributes # futures) soup
              = join_all tasks completed soup'"
    by (simp only: thread_pool_def run prod.case)
  from failing_remove_in_run_schedule [OF assms _ _ run]
  consider "tasks \<noteq> []" "hd tasks = Pending (RemoveAttributes attributes)"
    | e where "Inl e \<in> set completed"
    by auto
  then show ?thesis
  proof cases
    case 1
    then obtain rest where tasks: "tasks = Pending (RemoveAttributes attributes) # rest"
      by (cases tasks) auto
    obtain e where "run_to_end (Pending (RemoveAttributes attributes)) soup' = (Inl e, soup')"
      using assms by (auto simp: run_to_end_remove remove_attributes_def)
    then have "join_all tasks completed soup' = join_all rest (completed @ [Inl e]) soup'"
      by (simp add: tasks)
    moreover have "Inl e \<in> set (fst (join_all rest (completed @ [Inl e]) soup'))"
      using completed_grows_join_all [of "completed @ [Inl e]" rest soup'] by auto
    ultimately show ?thesis unfolding pool by auto
  next
    case 2
    then show ?thesis
      unfolding pool using completed_grows_join_all [of completed tasks soup'] by auto
  qed
qed

subsection \<open>The asynchronous mode is sequential\<close>

lemma apply_in_order_append:
  "apply_in_order (xs @ ys) soup = and_then (apply_in_order xs soup) (apply_in_order ys)"
  by (induction xs arbitrary: soup) (auto simp: and_then_def split: prod.splits sum.splits)

lemma await_replace_each_in_order:
  "await_replace_each entries soup
   = apply_in_order
       (map (\<lambda>rule. case rule of ReplaceRule attribute old_value new_value \<Rightarrow>
               ReplaceAttributeValue attribute old_value new_value) entries) soup"
  by (induction entries soup rule: await_replace_each.induct)
     (auto simp: and_then_def split: prod.splits sum.splits)

lemma await_add_each_in_order:
  "await_add_each entries soup
   = apply_in_order
       (map (\<lambda>rule. case rule of AddRule tag attribute val \<Rightarrow>
               AddAttribute tag attribute val) entries) soup"
  by (induction entries soup rule: await_add_each.induct)
     (auto simp: and_then_def add_attribute_def)

lemma derived_operations_submit: "derived_operations rules = submit rules"
  by (auto simp: derived_operations_def submit_def submit_remove_def submit_replace_def
      submit_add_def Let_def split: option.splits list.splits remove_rule.splits)

lemma and_then_assoc:
  "and_then (and_then r f) g = and_then r (\<lambda>s. and_then (f s) g)"
  by (auto simp: and_then_def split: prod.splits sum.splits)

lemma await_later_in_order:
  "and_then (await_replace rules soup) (await_add rules)
   = apply_in_order
       (map (\<lambda>rule. case rule of ReplaceRule attribute old_value new_value \<Rightarrow>
               ReplaceAttributeValue attribute old_value new_value)
          (case replace_attributes_key rules of None \<Rightarrow> [] | Some entries \<Rightarrow> entries)
        @ map (\<lambda>rule. case rule of AddRule tag attribute val \<Rightarrow>
                 AddAttribute tag attribute val)
            (case add_attributes_key rules of None \<Rightarrow> [] | Some entries \<Rightarrow> entries)) soup"
  by (auto simp: apply_in_order_append await_replace_def await_add_def
      await_replace_each_in_order await_add_each_in_order and_then_def
      split: option.splits prod.splits sum.splits)

text \<open>
  Claim C5. \<^verbatim>\<open>apply_rules_async\<close> applies the derived operations strictly one
  after the other in category order (the remove operation, then each replace entry in
  sequence order, then each add entry in sequence order): for every rule set, so
  also for those whose categories touch disjoint attributes, its outcome and the tree
  it leaves are those of the sequential application of the derived operations.
\<close>

theorem apply_rules_async_sequential:
  "apply_rules_async rules soup = sequential_application rules soup"
  unfolding apply_rules_async_def sequential_application_def and_then_assoc
    await_later_in_order
  by (auto simp: derived_operations_def await_remove_def rewrap_def and_then_def Let_def
      split: option.splits list.splits remove_rule.splits prod.splits sum.splits)

subsection \<open>Rule sets that only remove\<close>

text \<open>
  Claim C6. For a rule set with only the \<^verbatim>\<open>remove_attributes\<close> category, whose
  first entry lists at least one attribute, the direct call of \<^verbatim>\<open>remove_attributes\<close>
  returns normally, and \<^verbatim>\<open>apply_rules_async\<close> and \<^verbatim>\<open>apply_rules\<close> (under every
  schedule of the pool) return the same outcome and tree as the direct call. That tree
  has the same tags with the same names; on every tag in document order every listed
  attribute is absent, and every other attribute is as before.
\<close>

theorem remove_only_rules_remove_everywhere:
  assumes "attributes \<noteq> []"
  shows "fst (remove_attributes (Some attributes) soup) = Inr ()
    \<and> apply_rules_async
        \<lparr>remove_attributes_key = Some (Attributes (Some attributes) # rest),
         replace_attributes_key = None, add_attributes_key = None\<rparr> soup
      = remove_attributes (Some attributes) soup
    \<and> apply_rules
        \<lparr>remove_attributes_key = Some (Attributes (Some attributes) # rest),
         replace_attributes_key = None, add_attributes_key = None\<rparr> schedule soup
      = remove_attributes (Some attributes) soup
    \<and> length (find_all_True (snd (remove_attributes (Some attributes) soup)))
        = length (find_all_True soup)
    \<and> (\<forall>i < length (find_all_True soup).
          name_at (snd (remove_attributes (Some attributes) soup)) i = name_at soup i
        \<and> (\<forall>a \<in> set attributes.
              \<not> has_attr (attrs_at (snd (remove_attributes (Some attributes) soup)) i) a)
        \<and> (\<forall>k. k \<notin> set attributes \<longrightarrow>
              get_attr (attrs_at (snd (remove_attributes (Some attributes) soup)) i) k
              = get_attr (attrs_at soup i) k))"
  using assms
  by (auto simp: apply_rules_only_remove apply_rules_async_only_remove rewrap_def
      remove_attributes_def length_find_all_for_each_tag attrs_at_for_each_tag
      name_at_for_each_tag has_attr_remove_each get_attr_remove_each)

theorem remove_only_rules_remove_everywhere_witness:
  "apply_rules
     \<lparr>remove_attributes_key = Some [Attributes (Some [''width'', ''height''])],
      replace_attributes_key = None, add_attributes_key = None\<rparr> [0, 0, 0]
     [Tag ''root'' []
          [Tag ''img'' [(''src'', Str ''image.png''), (''width'', Str ''500''), (''height'', Str ''300'')]
             []]]
   = (Inr (), [Tag ''root'' [] [Tag ''img'' [(''src'', Str ''image.png'')] []]])"
  using remove_only_rules_remove_everywhere [where attributes = "[''width'', ''height'']"
      and rest = "[]" and schedule = "[0, 0, 0]" and soup = "[Tag ''root'' []
          [Tag ''img'' [(''src'', Str ''image.png''), (''width'', Str ''500''), (''height'', Str ''300'')]
             []]]"]
  by (simp add: remove_attributes_def has_attr_def del_attr_def)

subsection \<open>An empty or missing list of attributes\<close>

text \<open>
  Claim C2. When the \<^verbatim>\<open>attributes\<close> argument is \<^verbatim>\<open>None\<close> or the empty list:
  the direct call of \<^verbatim>\<open>remove_attributes\<close> raises a \<^verbatim>\<open>MarkupModificationError\<close> and
  leaves the tree as it is; in the pool the call finishes with that error in its
  first step, before it reads the tree; \<^verbatim>\<open>apply_rules_async\<close> raises a
  \<^verbatim>\<open>MarkupModificationError\<close> that wraps it and leaves the tree as it is, whatever
  else the rule set holds; \<^verbatim>\<open>apply_rules\<close> raises a \<^verbatim>\<open>MarkupModificationError\<close>
  under every schedule, whatever else the rule set holds, and when the rule set holds
  nothing else it wraps that error and leaves the tree as it is.
\<close>

theorem remove_attributes_rejects_empty:
  assumes "attributes = None \<or> attributes = Some []"
  shows "remove_attributes attributes soup
      = (Inl (MarkupModificationError
                ''List of attributes is empty or None, removal not possible.''
                (Some ''Passed an empty list of attributes'')), soup)
    \<and> step (Pending (RemoveAttributes attributes)) soup
      = (Finished (Inl (MarkupModificationError
                ''List of attributes is empty or None, removal not possible.''
                (Some ''Passed an empty list of attributes''))), soup)
    \<and> apply_rules_async (rules\<lparr>remove_attributes_key := Some (Attributes attributes # rest)\<rparr>)
        soup
      = (Inl (MarkupModificationError ''Error during asynchronous rule application''
                (Some (''List of attributes is empty or None, removal not possible.''
                       @ '': '' @ ''Passed an empty list of attributes''))), soup)
    \<and> (\<exists>e. fst (apply_rules
                  (rules\<lparr>remove_attributes_key := Some (Attributes attributes # rest)\<rparr>)
                  schedule soup)
           = Inl (MarkupModificationError ''Error during rule application'' (Some (str_of e))))
    \<and> apply_rules
        \<lparr>remove_attributes_key = Some (Attributes attributes # rest),
         replace_attributes_key = None, add_attributes_key = None\<rparr> schedule soup
      = (Inl (MarkupModificationError ''Error during rule application''
                (Some (''List of attributes is empty or None, removal not possible.''
                       @ '': '' @ ''Passed an empty list of attributes''))), soup)"
proof -
  let ?rules = "rules\<lparr>remove_attributes_key := Some (Attributes attributes # rest)\<rparr>"
  have direct: "remove_attributes attributes soup
      = (Inl (MarkupModificationError
                ''List of attributes is empty or None, removal not possible.''
                (Some ''Passed an empty list of attributes'')), soup)"
    using assms by (auto simp: remove_attributes_def)
  have first_step: "step (Pending (RemoveAttributes attributes)) soup
      = (Finished (Inl (MarkupModificationError
                ''List of attributes is empty or None, removal not possible.''
                (Some ''Passed an empty list of attributes''))), soup)"
    using assms by auto
  have async: "apply_rules_async ?rules soup
      = (Inl (MarkupModificationError ''Error during asynchronous rule application''
                (Some (''List of attributes is empty or None, removal not possible.''
                       @ '': '' @ ''Passed an empty list of attributes''))), soup)"
    by (simp add: apply_rules_async_def await_remove_def direct and_then_def rewrap_def)
  have sub: "submit ?rules
             = Inr (RemoveAttributes attributes # submit_replace rules @ submit_add rules)"
    by (simp add: submit_def submit_remove_def submit_replace_def submit_add_def)
  obtain e where
    "Inl e \<in> set (fst (thread_pool schedule
        (RemoveAttributes attributes # submit_replace rules @ submit_add rules) soup))"
    using failing_remove_in_thread_pool [OF assms] by blast
  then have "first_exception (fst (thread_pool schedule
        (RemoveAttributes attributes # submit_replace rules @ submit_add rules) soup)) \<noteq> None"
    by (auto simp: first_exception_None_iff)
  then have pool: "\<exists>e. fst (apply_rules ?rules schedule soup)
           = Inl (MarkupModificationError ''Error during rule application'' (Some (str_of e)))"
    by (auto simp: apply_rules_def sub split: prod.splits option.splits)
  have alone: "apply_rules
        \<lparr>remove_attributes_key = Some (Attributes attributes # rest),
         replace_attributes_key = None, add_attributes_key = None\<rparr> schedule soup
      = (Inl (MarkupModificationError ''Error during rule application''
                (Some (''List of attributes is empty or None, removal not possible.''
                       @ '': '' @ ''Passed an empty list of attributes''))), soup)"
    by (simp add: apply_rules_only_remove direct rewrap_def)
  from direct first_step async pool alone show ?thesis
    by blast
qed

theorem remove_attributes_rejects_empty_witness:
  "apply_rules_async
     \<lparr>remove_attributes_key = Some [Attributes None],
      replace_attributes_key = None, add_attributes_key = None\<rparr>
     [Tag ''root'' [] [Tag ''element'' [(''id'', Str ''1'')] []]]
   = (Inl (MarkupModificationError ''Error during asynchronous rule application''
             (Some (''List of attributes is empty or None, removal not possible.''
                    @ '': '' @ ''Passed an empty list of attributes''))),
      [Tag ''root'' [] [Tag ''element'' [(''id'', Str ''1'')] []]])"
  using remove_attributes_rejects_empty [where attributes = None
      and soup = "[Tag ''root'' [] [Tag ''element'' [(''id'', Str ''1'')] []]]"
      and rules = "\<lparr>remove_attributes_key = None, replace_attributes_key = None,
        add_attributes_key = None\<rparr>" and rest = "[]" and schedule = "[]"]
  by simp

subsection \<open>More than one entry to remove\<close>



subsection \<open>A call alone in the pool does what the method does\<close>

text \<open>
  The step machine of a call and the method it runs agree: a call that is not
  interrupted returns the outcome and leaves the tree of the direct call. So when
  \<^verbatim>\<open>apply_rules_async\<close> returns normally, \<^verbatim>\<open>apply_rules\<close> under the schedule that
  lets every call run to its end in the order of submission returns normally with the
  same tree.
\<close>

lemma run_to_end_AddLoop:
  "run_to_end (AddLoop attribute val todo) soup
   = (Inr (), fold (\<lambda>i. modify_tag i (\<lambda>d. set_attr d attribute (Str val))) todo soup)"
proof (induction todo arbitrary: soup)
  case Nil
  then show ?case by (simp add: run_to_end_step run_to_end_Finished)
next
  case (Cons i todo)
  then show ?case by (subst run_to_end_step) simp_all
qed

lemma run_to_end_add:
  "run_to_end (Pending (AddAttribute tag attribute val)) soup
   = add_attribute tag attribute val soup"
proof -
  let ?todo = "filter (\<lambda>i. name_at soup i = lower tag) [0 ..< length (find_all_True soup)]"
  have "fold (\<lambda>i. modify_tag i (\<lambda>d. set_attr d attribute (Str val))) ?todo soup
        = for_each_tag (add_body tag attribute val) soup"
    by (rule fold_modify_tag_for_each) (auto simp: add_body_def)
  then show ?thesis
    by (subst run_to_end_step) (simp_all add: run_to_end_AddLoop add_attribute_def)
qed

lemma run_to_end_ReplaceFind:
  "run_to_end (ReplaceFind attribute old_value new_value scan found) soup
   = run_to_end (ReplaceLoop attribute old_value new_value
                   (found @ filter (\<lambda>i. has_attr (attrs_at soup i) attribute) scan)) soup"
proof (induction scan arbitrary: found)
  case Nil
  then show ?case by (subst run_to_end_step) simp_all
next
  case (Cons i scan)
  then show ?case by (subst run_to_end_step) simp_all
qed

lemma run_to_end_ReplaceLoop:
  "\<forall>i \<in> set todo. i < length (find_all_True soup) \<Longrightarrow>
   run_to_end (ReplaceLoop attribute old_value new_value todo) soup
   = rewrap ''Error during attribute value replacement''
       (for_each_position (replace_body attribute old_value new_value) todo soup)"
proof (induction todo arbitrary: soup)
  case Nil
  then show ?case by (simp add: run_to_end_step run_to_end_Finished rewrap_def)
next
  case (Cons i todo)
  let ?body = "replace_body attribute old_value new_value"
  let ?message = "''Error during attribute value replacement''"
  have i: "i < length (find_all_True soup)" using Cons.prems by simp
  show ?case
  proof (cases "?body (attrs_at soup i)")
    case (Inl e)
    then obtain parts where
      cur: "get_attr (attrs_at soup i) attribute = Some (Multi parts)" "parts \<noteq> []"
      and e: "e = AttributeError (list_has_no_attribute ''replace'')"
      by (auto simp: replace_body_def Let_def split: option.splits attr_value.splits if_splits)
    have "step (ReplaceLoop attribute old_value new_value (i # todo)) soup
          = (Finished (Inl (MarkupModificationError ?message
                              (Some (list_has_no_attribute ''replace'')))), soup)"
      using cur by simp
    then have "run_to_end (ReplaceLoop attribute old_value new_value (i # todo)) soup
          = (Inl (MarkupModificationError ?message
                    (Some (list_has_no_attribute ''replace''))), soup)"
      by (subst run_to_end_step) (simp_all add: run_to_end_Finished)
    then show ?thesis
      using Inl e by (simp add: rewrap_def)
  next
    case (Inr d)
    show ?thesis
    proof (cases "d = attrs_at soup i")
      case True
      then have same: "modify_tag i (\<lambda>old. d) soup = soup"
        using i by (simp add: modify_tag_same)
      have "step (ReplaceLoop attribute old_value new_value (i # todo)) soup
            = (ReplaceLoop attribute old_value new_value todo, soup)"
        using Inr True
        by (auto simp: replace_body_def Let_def get_attr_def
            split: option.splits attr_value.splits if_splits
            dest: arg_cong [where f = "\<lambda>d. map_of d attribute"]
            simp: get_attr_set_attr [unfolded get_attr_def])
      then have "run_to_end (ReplaceLoop attribute old_value new_value (i # todo)) soup
            = run_to_end (ReplaceLoop attribute old_value new_value todo) soup"
        by (subst run_to_end_step) simp_all
      then show ?thesis
        using Cons.IH [of soup] Cons.prems Inr same by simp
    next
      case False
      with Inr obtain current_value where
        cur: "get_attr (attrs_at soup i) attribute = Some (Str current_value)"
          "current_value \<noteq> []"
          "replace current_value (strip_semicolon old_value) (strip_semicolon new_value)
           \<noteq> current_value"
        by (auto simp: replace_body_def Let_def
            split: option.splits attr_value.splits if_splits)
      let ?updated =
        "replace current_value (strip_semicolon old_value) (strip_semicolon new_value)"
      let ?store = "modify_tag i (\<lambda>d. set_attr d attribute (Str ?updated)) soup"
      have d: "d = set_attr (attrs_at soup i) attribute (Str ?updated)"
        using cur Inr by (simp add: replace_body_def)
      have store: "?store = modify_tag i (\<lambda>old. d) soup"
        using i d by (intro modify_tag_cong) simp_all
      have rest: "\<forall>k \<in> set todo. k < length (find_all_True ?store)"
        using Cons.prems by (simp add: length_find_all_modify_tag)
      have s1: "step (ReplaceLoop attribute old_value new_value (i # todo)) soup
            = (ReplaceStore attribute old_value new_value i ?updated todo, soup)"
        using cur by simp
      have s2: "step (ReplaceStore attribute old_value new_value i ?updated todo) soup
            = (ReplaceLog attribute old_value new_value i todo, ?store)"
        by simp
      have "has_attr (attrs_at ?store i) attribute"
        using i by (simp add: attrs_at_modify_tag has_attr_set_attr)
      then have s3: "step (ReplaceLog attribute old_value new_value i todo) ?store
            = (ReplaceLoop attribute old_value new_value todo, ?store)"
        by simp
      have "run_to_end (ReplaceLoop attribute old_value new_value (i # todo)) soup
            = run_to_end (ReplaceStore attribute old_value new_value i ?updated todo) soup"
        by (subst run_to_end_step) (simp_all only: s1 fst_conv snd_conv is_finished.simps, simp)
      also have "\<dots> = run_to_end (ReplaceLog attribute old_value new_value i todo) ?store"
        by (subst run_to_end_step) (simp_all only: s2 fst_conv snd_conv is_finished.simps, simp)
      also have "\<dots> = run_to_end (ReplaceLoop attribute old_value new_value todo) ?store"
        by (subst run_to_end_step) (simp_all only: s3 fst_conv snd_conv is_finished.simps, simp)
      finally show ?thesis
        using Cons.IH [OF rest] Inr by (simp add: store)
    qed
  qed
qed

lemma run_to_end_replace:
  "run_to_end (Pending (ReplaceAttributeValue attribute old_value new_value)) soup
   = replace_attribute_value attribute old_value new_value soup"
proof -
  have "run_to_end (Pending (ReplaceAttributeValue attribute old_value new_value)) soup
        = run_to_end (ReplaceLoop attribute old_value new_value
                        (find_all_attrs attribute soup)) soup"
    by (subst run_to_end_step) (simp_all add: run_to_end_ReplaceFind find_all_attrs_def)
  then show ?thesis
    by (simp add: run_to_end_ReplaceLoop replace_attribute_value_def set_find_all_attrs)
qed

lemma run_to_end_operation: "run_to_end (Pending operation) soup = apply_operation operation soup"
  by (cases operation) (simp_all add: run_to_end_remove run_to_end_replace run_to_end_add)

lemma join_all_in_order:
  "apply_in_order operations soup = (Inr (), soup') \<Longrightarrow>
   join_all (map Pending operations) completed soup
   = (completed @ replicate (length operations) (Inr ()), soup')"
proof (induction operations arbitrary: completed soup)
  case Nil
  then show ?case by simp
next
  case (Cons operation operations)
  then show ?case
    by (auto simp: run_to_end_operation replicate_app_Cons_same
        split: prod.splits sum.splits)
qed

lemma first_exception_replicate: "first_exception (replicate n (Inr ())) = None"
  by (induction n) simp_all

lemma apply_rules_in_submission_order:
  assumes "apply_rules_async rules soup = (Inr (), soup')"
  shows "apply_rules rules [] soup = (Inr (), soup')"
proof -
  have "apply_rules_async rules soup = sequential_application rules soup"
    unfolding apply_rules_async_def sequential_application_def and_then_assoc
      await_later_in_order
    by (auto simp: derived_operations_def await_remove_def rewrap_def and_then_def Let_def
        split: option.splits list.splits remove_rule.splits prod.splits sum.splits)
  with assms have seq: "sequential_application rules soup = (Inr (), soup')"
    by simp
  then obtain operations where ops: "derived_operations rules = Inr operations"
    "apply_in_order operations soup = (Inr (), soup')"
    by (auto simp: sequential_application_def split: sum.splits prod.splits)
  then have "thread_pool [] operations soup
             = (replicate (length operations) (Inr ()), soup')"
    using join_all_in_order [of operations soup soup' "[]"] by (simp add: thread_pool_def)
  with ops show ?thesis
    by (simp add: apply_rules_def derived_operations_submit [symmetric]
        first_exception_replicate)
qed

end
